theory Spec2Isabelle
  imports Main
begin

section \<open>Strings\<close>

text \<open>
  JavaScript's \<^verbatim>\<open>String.prototype.includes\<close> (substring test) and the decimal
  rendering of a number inside a template literal.
\<close>

fun startsWith :: "string \<Rightarrow> string \<Rightarrow> bool" where
  "startsWith s [] = True"
| "startsWith [] (c # cs) = False"
| "startsWith (x # xs) (c # cs) = (x = c \<and> startsWith xs cs)"

fun str_includes :: "string \<Rightarrow> string \<Rightarrow> bool" where
  "str_includes [] sub = (sub = [])"
| "str_includes (x # xs) sub = (startsWith (x # xs) sub \<or> str_includes xs sub)"

definition digit_char :: "nat \<Rightarrow> char" where
  "digit_char d = ''0123456789'' ! d"

function show_nat :: "nat \<Rightarrow> string" where
  "show_nat n = (if n < 10 then [digit_char n] else show_nat (n div 10) @ [digit_char (n mod 10)])"
  by pat_completeness auto
termination
  by (relation "measure (\<lambda>n. n)") auto

declare show_nat.simps [simp del]

section \<open>Store registry (class WooCommerceService)\<close>

datatype server_status = Online | Offline | Error

text \<open>
  The interface \<^verbatim>\<open>WooCommerceServer\<close>. An optional field (\<^verbatim>\<open>lastChecked?\<close>) is an
  \<open>option\<close>: \<open>None\<close> is JavaScript's \<^verbatim>\<open>undefined\<close>, which is also what a key
  dropped by \<^verbatim>\<open>JSON.stringify\<close> reads back as. \<^verbatim>\<open>responseTime\<close> is a difference of two
  \<^verbatim>\<open>Date.now()\<close> readings, an integer number of milliseconds.
\<close>

record WooCommerceServer =
  server_id :: string
  name :: string
  url :: string
  consumerKey :: string
  consumerSecret :: string
  isActive :: bool
  lastChecked :: "string option"
  status :: "server_status option"
  errorMessage :: "string option"
  responseTime :: "int option"

text \<open>The argument of \<^verbatim>\<open>addServer\<close>: \<^verbatim>\<open>Omit<WooCommerceServer, 'id' | 'isActive' | 'status'>\<close>.\<close>

record server_input =
  in_name :: string
  in_url :: string
  in_consumerKey :: string
  in_consumerSecret :: string
  in_lastChecked :: "string option"
  in_errorMessage :: "string option"
  in_responseTime :: "int option"

text \<open>
  \<^verbatim>\<open>Partial<WooCommerceServer>\<close>: every key may be absent (\<open>None\<close>). A key of an optional
  field that is present may hold \<^verbatim>\<open>undefined\<close> (\<open>Some None\<close>), which the object spread
  copies over the old value; \<^verbatim>\<open>checkAllServersStatus\<close> passes \<^verbatim>\<open>errorMessage\<close> so.
\<close>

record server_updates =
  upd_id :: "string option"
  upd_name :: "string option"
  upd_url :: "string option"
  upd_consumerKey :: "string option"
  upd_consumerSecret :: "string option"
  upd_isActive :: "bool option"
  upd_lastChecked :: "string option option"
  upd_status :: "server_status option option"
  upd_errorMessage :: "string option option"
  upd_responseTime :: "int option option"

definition no_updates :: server_updates where
  "no_updates = \<lparr>upd_id = None, upd_name = None, upd_url = None, upd_consumerKey = None,
     upd_consumerSecret = None, upd_isActive = None, upd_lastChecked = None, upd_status = None,
     upd_errorMessage = None, upd_responseTime = None\<rparr>"

text \<open>The object spread \<^verbatim>\<open>{ ...servers[index], ...updates }\<close>.\<close>

definition spread :: "WooCommerceServer \<Rightarrow> server_updates \<Rightarrow> WooCommerceServer" where
  "spread s u =
     \<lparr>server_id = (case upd_id u of None \<Rightarrow> server_id s | Some v \<Rightarrow> v),
      name = (case upd_name u of None \<Rightarrow> name s | Some v \<Rightarrow> v),
      url = (case upd_url u of None \<Rightarrow> url s | Some v \<Rightarrow> v),
      consumerKey = (case upd_consumerKey u of None \<Rightarrow> consumerKey s | Some v \<Rightarrow> v),
      consumerSecret = (case upd_consumerSecret u of None \<Rightarrow> consumerSecret s | Some v \<Rightarrow> v),
      isActive = (case upd_isActive u of None \<Rightarrow> isActive s | Some v \<Rightarrow> v),
      lastChecked = (case upd_lastChecked u of None \<Rightarrow> lastChecked s | Some v \<Rightarrow> v),
      status = (case upd_status u of None \<Rightarrow> status s | Some v \<Rightarrow> v),
      errorMessage = (case upd_errorMessage u of None \<Rightarrow> errorMessage s | Some v \<Rightarrow> v),
      responseTime = (case upd_responseTime u of None \<Rightarrow> responseTime s | Some v \<Rightarrow> v)\<rparr>"

text \<open>
  What the service does to the outside is kept as a trace: a \<^verbatim>\<open>localStorage.setItem\<close>
  with the collection written, and the call of one monitor callback with the list it is
  passed. A callback is known by a number; what it does with the list is the presentation
  layer's business.
\<close>

datatype event =
  SetItem "WooCommerceServer list"
| Callback nat "WooCommerceServer list"

text \<open>
  What \<^verbatim>\<open>axios.get\<close> on the status endpoint does is the network's choice. A request
  either resolves with a response, of which the code reads the HTTP status, or rejects
  with a thrown value, of which the code asks whether it is an \<^verbatim>\<open>Error\<close> and reads the
  message. Each outcome carries the milliseconds between the two \<^verbatim>\<open>Date.now()\<close>
  readings around that request.
\<close>

datatype thrown = JsError string | NonError

datatype probe_outcome =
  Responded nat int
| Rejected thrown int

record check_result =
  result_status :: server_status
  result_errorMessage :: "string option"
  result_responseTime :: "int option"

text \<open>
  A call of \<^verbatim>\<open>checkAllServersStatus\<close> that is waiting at its \<^verbatim>\<open>await Promise.all\<close>:
  the \<^verbatim>\<open>{ server, result }\<close> pairs it will resume with, each with its position. The
  \<^verbatim>\<open>server\<close> of a pair is the object read from storage when the call started.
\<close>

type_synonym check_run = "(nat \<times> WooCommerceServer \<times> check_result) list"

text \<open>
  The static fields of the class together with what the browser holds for it: the
  \<^verbatim>\<open>localStorage\<close> entry under \<^verbatim>\<open>STORAGE_KEY\<close> (\<open>None\<close> while the key is absent; the
  JSON text is represented by the list it encodes), the interval timers of \<^verbatim>\<open>window\<close>
  that this class has set, each handle with its period in milliseconds, and the calls of
  \<^verbatim>\<open>checkAllServersStatus\<close> that have not resumed yet.
\<close>

record service =
  storage :: "WooCommerceServer list option"
  monitoringInterval :: "nat option"
  monitorCallbacks :: "nat list"
  timers :: "nat \<rightharpoonup> nat"
  next_timer :: nat
  inflight :: "check_run list"
  events :: "event list"

definition MAX_RETRIES :: nat where
  "MAX_RETRIES = 2"

definition getServers :: "service \<Rightarrow> WooCommerceServer list" where
  "getServers st = (case storage st of None \<Rightarrow> [] | Some servers \<Rightarrow> servers)"

definition getActiveServers :: "service \<Rightarrow> WooCommerceServer list" where
  "getActiveServers st = filter (\<lambda>server. isActive server \<and> status server = Some Online) (getServers st)"

definition setItem :: "WooCommerceServer list \<Rightarrow> service \<Rightarrow> service" where
  "setItem servers st = st\<lparr>storage := Some servers, events := events st @ [SetItem servers]\<rparr>"

definition notifyMonitorCallbacks :: "service \<Rightarrow> service" where
  "notifyMonitorCallbacks st =
     (let servers = getServers st
      in st\<lparr>events := events st @ map (\<lambda>callback. Callback callback servers) (monitorCallbacks st)\<rparr>)"

text \<open>
  \<^verbatim>\<open>crypto.randomUUID()\<close> is the environment's: the value it returns is the argument
  \<open>uuid\<close>.
\<close>

definition addServer :: "server_input \<Rightarrow> string \<Rightarrow> service \<Rightarrow> WooCommerceServer \<times> service" where
  "addServer server uuid st =
     (let servers = getServers st;
          newServer = \<lparr>server_id = uuid, name = in_name server, url = in_url server,
            consumerKey = in_consumerKey server, consumerSecret = in_consumerSecret server,
            isActive = True, lastChecked = in_lastChecked server, status = Some Offline,
            errorMessage = in_errorMessage server, responseTime = in_responseTime server\<rparr>
      in (newServer, notifyMonitorCallbacks (setItem (servers @ [newServer]) st)))"

text \<open>\<^verbatim>\<open>Array.prototype.findIndex\<close>, with \<open>None\<close> for \<^verbatim>\<open>-1\<close>.\<close>

fun findIndex :: "('a \<Rightarrow> bool) \<Rightarrow> 'a list \<Rightarrow> nat option" where
  "findIndex P [] = None"
| "findIndex P (x # xs) = (if P x then Some 0 else map_option Suc (findIndex P xs))"

definition updateServer :: "string \<Rightarrow> server_updates \<Rightarrow> service \<Rightarrow> service" where
  "updateServer serverId updates st =
     (let servers = getServers st
      in case findIndex (\<lambda>s. server_id s = serverId) servers of
           None \<Rightarrow> st
         | Some index \<Rightarrow>
             notifyMonitorCallbacks
               (setItem (servers[index := spread (servers ! index) updates]) st))"

definition deleteServer :: "string \<Rightarrow> service \<Rightarrow> service" where
  "deleteServer serverId st =
     (let servers = filter (\<lambda>s. server_id s \<noteq> serverId) (getServers st)
      in notifyMonitorCallbacks (setItem servers st))"

text \<open>
  \<^verbatim>\<open>servers.find\<close> returns the first matching element of the array itself, so the
  assignment to \<^verbatim>\<open>server.isActive\<close> changes the array at that element's position.
\<close>

definition toggleServerActive :: "string \<Rightarrow> service \<Rightarrow> service" where
  "toggleServerActive serverId st =
     (let servers = getServers st
      in case findIndex (\<lambda>s. server_id s = serverId) servers of
           None \<Rightarrow> st
         | Some index \<Rightarrow>
             notifyMonitorCallbacks
               (setItem (servers[index := (servers ! index)\<lparr>isActive := \<not> isActive (servers ! index)\<rparr>]) st))"

section \<open>Health check\<close>

fun isTimeout :: "thrown \<Rightarrow> bool" where
  "isTimeout (JsError message) = (str_includes message ''timeout'' \<or> str_includes message ''ECONNABORTED'')"
| "isTimeout NonError = False"

fun isNetworkError :: "thrown \<Rightarrow> bool" where
  "isNetworkError (JsError message) = (str_includes message ''Network Error'' \<or> isTimeout (JsError message))"
| "isNetworkError NonError = False"

fun failureMessage :: "thrown \<Rightarrow> nat \<Rightarrow> string" where
  "failureMessage (JsError message) retryCount =
     message @ (if retryCount > 0 then '' (after '' @ show_nat (retryCount + 1) @ '' attempts)'' else [])"
| "failureMessage NonError retryCount = ''Unknown error occurred''"

text \<open>
  \<open>probe k\<close> is the outcome of the request that the call with \<open>retryCount = k\<close> makes.
  The second component of the result counts the requests made by the call and the calls
  it makes in turn.
\<close>

function checkServerWithRetry :: "(nat \<Rightarrow> probe_outcome) \<Rightarrow> WooCommerceServer \<Rightarrow> nat \<Rightarrow> check_result \<times> nat" where
  "checkServerWithRetry probe server retryCount =
     (case probe retryCount of
        Responded code elapsed \<Rightarrow>
          (\<lparr>result_status = (if code = 200 then Online else Error),
            result_errorMessage = (if code \<noteq> 200 then Some ''Server returned unexpected status'' else None),
            result_responseTime = Some elapsed\<rparr>, 1)
      | Rejected error elapsed \<Rightarrow>
          if isTimeout error \<and> retryCount < MAX_RETRIES
          then (let (result, requests) = checkServerWithRetry probe server (retryCount + 1)
                in (result, Suc requests))
          else
            (\<lparr>result_status = (if isNetworkError error then Offline else Error),
              result_errorMessage = Some (failureMessage error retryCount),
              result_responseTime = Some elapsed\<rparr>, 1))"
  by pat_completeness auto
termination
  by (relation "measure (\<lambda>(probe, server, retryCount). MAX_RETRIES - retryCount)") auto

declare checkServerWithRetry.simps [simp del]

definition checkServerStatus :: "(nat \<Rightarrow> probe_outcome) \<Rightarrow> WooCommerceServer \<Rightarrow> check_result" where
  "checkServerStatus probe server = fst (checkServerWithRetry probe server 0)"

section \<open>Monitor\<close>

definition changed :: "WooCommerceServer \<Rightarrow> check_result \<Rightarrow> bool" where
  "changed server result =
     (status server \<noteq> Some (result_status result) \<or>
      errorMessage server \<noteq> result_errorMessage result \<or>
      responseTime server \<noteq> result_responseTime result)"

text \<open>
  The body of \<^verbatim>\<open>results.forEach\<close>, on the service and the local \<^verbatim>\<open>hasChanges\<close>.
  \<open>now i\<close> is \<^verbatim>\<open>new Date().toISOString()\<close> as read while the \<open>i\<close>-th result is handled.
\<close>

definition recordResult :: "(nat \<Rightarrow> string) \<Rightarrow> service \<times> bool \<Rightarrow> nat \<times> WooCommerceServer \<times> check_result \<Rightarrow> service \<times> bool" where
  "recordResult now acc item =
     (case acc of (st, hasChanges) \<Rightarrow>
      case item of (i, server, result) \<Rightarrow>
        if changed server result
        then (updateServer (server_id server)
                (no_updates\<lparr>upd_status := Some (Some (result_status result)),
                   upd_errorMessage := Some (result_errorMessage result),
                   upd_responseTime := Some (result_responseTime result),
                   upd_lastChecked := Some (Some (now i))\<rparr>) st, True)
        else (st, hasChanges))"

text \<open>
  \<^verbatim>\<open>checkAllServersStatus\<close> is asynchronous and no caller awaits it. The call itself runs
  up to the \<^verbatim>\<open>await\<close>: it reads the list and starts one probe per store (\<open>net i\<close>
  answers the requests for the \<open>i\<close>-th store). It resumes when all probes have settled,
  which takes up to three timeouts of ten seconds; until then other calls on the service,
  other runs of the monitor among them, take their turn.
\<close>

definition probeAll :: "(nat \<Rightarrow> nat \<Rightarrow> probe_outcome) \<Rightarrow> WooCommerceServer list \<Rightarrow> check_run" where
  "probeAll net servers = map (\<lambda>i. (i, servers ! i, checkServerStatus (net i) (servers ! i))) [0..<length servers]"

definition checkAllServersStatus :: "(nat \<Rightarrow> nat \<Rightarrow> probe_outcome) \<Rightarrow> service \<Rightarrow> service" where
  "checkAllServersStatus net st =
     (let servers = getServers st;
          results = probeAll net servers
      in st\<lparr>inflight := inflight st @ [results]\<rparr>)"

text \<open>The rest of the function, from \<^verbatim>\<open>results.forEach\<close> on, run on the service as it is then.\<close>

definition checkAllServersStatus_resumed :: "(nat \<Rightarrow> string) \<Rightarrow> check_run \<Rightarrow> service \<Rightarrow> service" where
  "checkAllServersStatus_resumed now results st =
     (case foldl (recordResult now) (st, False) results of
        (st', hasChanges) \<Rightarrow> if hasChanges then notifyMonitorCallbacks st' else st')"

text \<open>The probes of the \<open>k\<close>-th waiting call have all settled: that call resumes.\<close>

definition probesSettle :: "nat \<Rightarrow> (nat \<Rightarrow> string) \<Rightarrow> service \<Rightarrow> service" where
  "probesSettle k now st =
     (if k < length (inflight st)
      then checkAllServersStatus_resumed now (inflight st ! k)
             (st\<lparr>inflight := take k (inflight st) @ drop (Suc k) (inflight st)\<rparr>)
      else st)"

text \<open>
  \<^verbatim>\<open>window.setInterval(f, 5000)\<close> hands out a handle not in use and registers the
  period; \<^verbatim>\<open>window.clearInterval\<close> removes the handle.
\<close>

definition setInterval :: "nat \<Rightarrow> service \<Rightarrow> nat \<times> service" where
  "setInterval period st =
     (next_timer st, st\<lparr>timers := (timers st)(next_timer st \<mapsto> period), next_timer := Suc (next_timer st)\<rparr>)"

definition clearInterval :: "nat \<Rightarrow> service \<Rightarrow> service" where
  "clearInterval handle st = st\<lparr>timers := (timers st)(handle := None)\<rparr>"

definition startMonitoring :: "nat option \<Rightarrow> (nat \<Rightarrow> nat \<Rightarrow> probe_outcome) \<Rightarrow> service \<Rightarrow> service" where
  "startMonitoring callback net st =
     (let st1 = (case callback of
                   None \<Rightarrow> st
                 | Some cb \<Rightarrow> st\<lparr>monitorCallbacks := monitorCallbacks st @ [cb]\<rparr>)
      in if monitoringInterval st1 = None
         then (let st2 = checkAllServersStatus net st1;
                   (handle, st3) = setInterval 5000 st2
               in st3\<lparr>monitoringInterval := Some handle\<rparr>)
         else st1)"

definition stopMonitoring :: "nat option \<Rightarrow> service \<Rightarrow> service" where
  "stopMonitoring callback st =
     (let st1 = (case callback of
                   None \<Rightarrow> st
                 | Some cb \<Rightarrow> st\<lparr>monitorCallbacks := filter (\<lambda>c. c \<noteq> cb) (monitorCallbacks st)\<rparr>)
      in case monitoringInterval st1 of
           None \<Rightarrow> st1
         | Some handle \<Rightarrow>
             if monitorCallbacks st1 = []
             then (clearInterval handle st1)\<lparr>monitoringInterval := None\<rparr>
             else st1)"

text \<open>
  The browser firing the timer \<open>handle\<close>: the function given to \<^verbatim>\<open>setInterval\<close>, a call
  of \<^verbatim>\<open>checkAllServersStatus\<close>, runs if the handle is still registered, and nothing
  happens otherwise.
\<close>

definition intervalFires :: "nat \<Rightarrow> (nat \<Rightarrow> nat \<Rightarrow> probe_outcome) \<Rightarrow> service \<Rightarrow> service" where
  "intervalFires handle net st =
     (case timers st handle of
        None \<Rightarrow> st
      | Some period \<Rightarrow> checkAllServersStatus net st)"

definition running :: "service \<Rightarrow> bool" where
  "running st = (case monitoringInterval st of None \<Rightarrow> False | Some handle \<Rightarrow> timers st handle = Some 5000)"

text \<open>
  What can happen to the service: the calls a page can make, the timer firing, and the
  probes of a waiting call settling.
\<close>

datatype action =
  AddServer server_input string
| UpdateServer string server_updates
| DeleteServer string
| ToggleServerActive string
| CheckAllServersStatus "nat \<Rightarrow> nat \<Rightarrow> probe_outcome"
| ProbesSettle nat "nat \<Rightarrow> string"
| StartMonitoring "nat option" "nat \<Rightarrow> nat \<Rightarrow> probe_outcome"
| StopMonitoring "nat option"
| IntervalFires nat "nat \<Rightarrow> nat \<Rightarrow> probe_outcome"

fun perform :: "service \<Rightarrow> action \<Rightarrow> service" where
  "perform st (AddServer server uuid) = snd (addServer server uuid st)"
| "perform st (UpdateServer serverId updates) = updateServer serverId updates st"
| "perform st (DeleteServer serverId) = deleteServer serverId st"
| "perform st (ToggleServerActive serverId) = toggleServerActive serverId st"
| "perform st (CheckAllServersStatus net) = checkAllServersStatus net st"
| "perform st (ProbesSettle k now) = probesSettle k now st"
| "perform st (StartMonitoring callback net) = startMonitoring callback net st"
| "perform st (StopMonitoring callback) = stopMonitoring callback st"
| "perform st (IntervalFires handle net) = intervalFires handle net st"

text \<open>
  The service when the page is loaded: whatever an earlier session left in
  \<^verbatim>\<open>localStorage\<close>, no timer, no subscriber, no call waiting.
\<close>

definition initial :: "WooCommerceServer list option \<Rightarrow> service" where
  "initial stored = \<lparr>storage = stored, monitoringInterval = None, monitorCallbacks = [],
     timers = Map.empty, next_timer = 1, inflight = [], events = []\<rparr>"

definition run :: "action list \<Rightarrow> service \<Rightarrow> service" where
  "run actions st = foldl perform st actions"

section \<open>Fetch aggregators (components AllOrders and AllProducts)\<close>

text \<open>
  The entity interfaces of the two components. An entity as the store's API returns it
  has the same shape as the entity the component keeps; the component overwrites
  \<^verbatim>\<open>store\<close> (and, for an order, \<^verbatim>\<open>notes\<close>) on every entity it receives.
\<close>

record order_note =
  note_id :: int
  author :: string
  note_date_created :: string
  note_text :: string
  is_customer_note :: bool

record store_ref =
  store_id :: string
  store_name :: string

record order =
  order_id :: int
  number :: string
  order_status :: string
  date_created :: string
  total :: string
  customer_id :: int
  customer_note :: string
  order_notes :: "order_note list"
  order_store :: "store_ref option"

record product_store_ref =
  pstore_id :: string
  pstore_name :: string
  pstore_url :: string

record product =
  product_id :: int
  product_name :: string
  price :: string
  regular_price :: string
  sale_price :: string
  product_status :: string
  stock_status :: string
  description :: string
  short_description :: string
  sku :: string
  permalink :: string
  categories :: "(int \<times> string) list"
  images :: "(int \<times> string \<times> string) list"
  product_store :: "product_store_ref option"
  attributes :: "(int \<times> string \<times> string list) list option"

text \<open>
  The part of each component's state that a fetch writes (the progress display is left
  out). \<^verbatim>\<open>servers\<close>, \<^verbatim>\<open>selectedServers\<close>, \<^verbatim>\<open>page\<close> and \<^verbatim>\<open>searchTerm\<close> are read
  from the closure; the first two are arguments below, the last two only shape the
  request, whose answer is the network's.
\<close>

record orders_view =
  orders :: "order list"
  orders_loading :: bool
  orders_error :: "string option"
  orders_hasMore :: bool

record products_view =
  products :: "product list"
  products_loading :: bool
  products_error :: "string option"
  products_hasMore :: bool

text \<open>
  The answer to the list request of one selected store: rejected, or the page of
  entities. For orders every listed order comes with the outcome of its own notes
  request.
\<close>

type_synonym products_response = "thrown + product list"

type_synonym orders_response = "thrown + (order \<times> (thrown + order_note list)) list"

text \<open>\<^verbatim>\<open>Promise.all\<close> over the notes requests of one store: one rejection rejects all.\<close>

fun withNotes :: "WooCommerceServer \<Rightarrow> (order \<times> (thrown + order_note list)) list \<Rightarrow> order list option" where
  "withNotes server [] = Some []"
| "withNotes server ((ord, Inl err) # rest) = None"
| "withNotes server ((ord, Inr notesData) # rest) =
     (case withNotes server rest of
        None \<Rightarrow> None
      | Some ordersWithNotes \<Rightarrow>
          Some (ord\<lparr>order_notes := notesData,
                  order_store := Some \<lparr>store_id = server_id server, store_name = name server\<rparr>\<rparr> # ordersWithNotes))"

text \<open>The promise made for one selected store id; it never rejects.\<close>

definition orderPromise :: "WooCommerceServer list \<Rightarrow> orders_response \<Rightarrow> string \<Rightarrow> order list" where
  "orderPromise servers response serverId =
     (case find (\<lambda>s. server_id s = serverId) servers of
        None \<Rightarrow> []
      | Some server \<Rightarrow>
          (case response of
             Inl err \<Rightarrow> []
           | Inr ordersData \<Rightarrow>
               (case withNotes server ordersData of
                  None \<Rightarrow> []
                | Some ordersWithNotes \<Rightarrow> ordersWithNotes)))"

definition productPromise :: "WooCommerceServer list \<Rightarrow> products_response \<Rightarrow> string \<Rightarrow> product list" where
  "productPromise servers response serverId =
     (case find (\<lambda>s. server_id s = serverId) servers of
        None \<Rightarrow> []
      | Some server \<Rightarrow>
          (case response of
             Inl err \<Rightarrow> []
           | Inr data \<Rightarrow>
               map (\<lambda>p. p\<lparr>product_store := Some \<lparr>pstore_id = server_id server,
                             pstore_name = name server, pstore_url = url server\<rparr>\<rparr>) data))"

text \<open>
  \<^verbatim>\<open>allOrders\<close> and \<^verbatim>\<open>allProducts\<close>: the settled promises, flattened. \<open>net index\<close> is
  the answer to the request made for \<^verbatim>\<open>selectedServers[index]\<close>.
\<close>

definition allOrders :: "WooCommerceServer list \<Rightarrow> string list \<Rightarrow> (nat \<Rightarrow> orders_response) \<Rightarrow> order list" where
  "allOrders servers selectedServers net =
     concat (map (\<lambda>index. orderPromise servers (net index) (selectedServers ! index))
                 [0..<length selectedServers])"

definition allProducts :: "WooCommerceServer list \<Rightarrow> string list \<Rightarrow> (nat \<Rightarrow> products_response) \<Rightarrow> product list" where
  "allProducts servers selectedServers net =
     concat (map (\<lambda>index. productPromise servers (net index) (selectedServers ! index))
                 [0..<length selectedServers])"

definition sameOrder :: "order \<Rightarrow> order \<Rightarrow> bool" where
  "sameOrder existingOrder newOrder =
     (order_id existingOrder = order_id newOrder \<and>
      map_option store_id (order_store existingOrder) = map_option store_id (order_store newOrder))"

definition sameProduct :: "product \<Rightarrow> product \<Rightarrow> bool" where
  "sameProduct existingProduct newProduct =
     (product_id existingProduct = product_id newProduct \<and>
      map_option pstore_id (product_store existingProduct) = map_option pstore_id (product_store newProduct))"

text \<open>
  No statement between the outer \<^verbatim>\<open>try\<close> and its \<^verbatim>\<open>catch\<close> throws once each per-store
  promise absorbs its own rejection, so a fetch always reaches the end of the \<^verbatim>\<open>try\<close>
  block and the error set to \<^verbatim>\<open>null\<close> on entry stays.
\<close>

definition fetchOrders :: "WooCommerceServer list \<Rightarrow> string list \<Rightarrow> (nat \<Rightarrow> orders_response) \<Rightarrow> orders_view \<Rightarrow> orders_view" where
  "fetchOrders servers selectedServers net view =
     (let fetched = allOrders servers selectedServers net;
          prevOrders = orders view;
          newOrders = filter (\<lambda>newOrder. \<not> list_ex (\<lambda>existingOrder. sameOrder existingOrder newOrder) prevOrders) fetched
      in \<lparr>orders = prevOrders @ newOrders,
          orders_loading = False,
          orders_error = None,
          orders_hasMore = (length fetched = length selectedServers * 20)\<rparr>)"

definition fetchProducts :: "WooCommerceServer list \<Rightarrow> string list \<Rightarrow> (nat \<Rightarrow> products_response) \<Rightarrow> products_view \<Rightarrow> products_view" where
  "fetchProducts servers selectedServers net view =
     (let fetched = allProducts servers selectedServers net;
          prevProducts = products view;
          newProducts = filter (\<lambda>newProduct. \<not> list_ex (\<lambda>existingProduct. sameProduct existingProduct newProduct) prevProducts) fetched
      in \<lparr>products = prevProducts @ newProducts,
          products_loading = False,
          products_error = None,
          products_hasMore = (length fetched = length selectedServers * 20)\<rparr>)"

text \<open>The pair by which entities are told apart.\<close>

definition order_key :: "order \<Rightarrow> string option \<times> int" where
  "order_key ord = (map_option store_id (order_store ord), order_id ord)"

definition product_key :: "product \<Rightarrow> string option \<times> int" where
  "product_key p = (map_option pstore_id (product_store p), product_id p)"

section \<open>Example data\<close>

definition shopA :: WooCommerceServer where
  "shopA = \<lparr>server_id = ''a'', name = ''Shop A'', url = ''https://a.example'',
     consumerKey = ''ck_a'', consumerSecret = ''cs_a'', isActive = True, lastChecked = None,
     status = Some Online, errorMessage = None, responseTime = Some 12\<rparr>"

definition shopB :: WooCommerceServer where
  "shopB = \<lparr>server_id = ''b'', name = ''Shop B'', url = ''https://b.example'',
     consumerKey = ''ck_b'', consumerSecret = ''cs_b'', isActive = True, lastChecked = None,
     status = Some Online, errorMessage = None, responseTime = Some 30\<rparr>"

definition shirt :: "int \<Rightarrow> product" where
  "shirt n = \<lparr>product_id = n, product_name = ''Shirt'', price = ''10.00'',
     regular_price = ''12.00'', sale_price = ''10.00'', product_status = ''publish'',
     stock_status = ''instock'', description = '''', short_description = '''', sku = ''SH'',
     permalink = ''https://a.example/shirt'', categories = [], images = [],
     product_store = None, attributes = None\<rparr>"

definition parcel :: "int \<Rightarrow> order" where
  "parcel n = \<lparr>order_id = n, number = ''1001'', order_status = ''processing'',
     date_created = ''2024-01-01T00:00:00'', total = ''10.00'', customer_id = 7,
     customer_note = '''', order_notes = [], order_store = None\<rparr>"

definition no_orders :: orders_view where
  "no_orders = \<lparr>orders = [], orders_loading = True, orders_error = None, orders_hasMore = True\<rparr>"

definition no_products :: products_view where
  "no_products = \<lparr>products = [], products_loading = True, products_error = None, products_hasMore = True\<rparr>"

text \<open>Two stores answer with a full page each; or the second one with 19 entities.\<close>

definition full_pages :: "nat \<Rightarrow> products_response" where
  "full_pages index = Inr (map shirt [1..20])"

definition short_second_page :: "nat \<Rightarrow> products_response" where
  "short_second_page index = (if index = 0 then Inr (map shirt [1..20]) else Inr (map shirt [1..19]))"

definition full_order_pages :: "nat \<Rightarrow> orders_response" where
  "full_order_pages index = Inr (map (\<lambda>n. (parcel n, Inr [])) [1..20])"

definition short_second_order_page :: "nat \<Rightarrow> orders_response" where
  "short_second_order_page index =
     (if index = 0 then Inr (map (\<lambda>n. (parcel n, Inr [])) [1..20])
      else Inr (map (\<lambda>n. (parcel n, Inr [])) [1..19]))"

text \<open>Probe sequences, by attempt.\<close>

definition timeout_error :: thrown where
  "timeout_error = JsError ''timeout of 10000ms exceeded''"

definition two_timeouts_then_ok :: "nat \<Rightarrow> probe_outcome" where
  "two_timeouts_then_ok k =
     (if k = 0 then Rejected timeout_error 10001
      else if k = 1 then Rejected timeout_error 10002
      else Responded 200 35)"

definition always_timeout :: "nat \<Rightarrow> probe_outcome" where
  "always_timeout k = Rejected timeout_error 10003"

definition timeout_then_unknown :: "nat \<Rightarrow> probe_outcome" where
  "timeout_then_unknown k = (if k = 0 then Rejected timeout_error 10001 else Rejected NonError 8)"

definition timeout_then_no_content :: "nat \<Rightarrow> probe_outcome" where
  "timeout_then_no_content k = (if k = 0 then Rejected timeout_error 10001 else Responded 204 40)"

definition unauthorized :: "nat \<Rightarrow> probe_outcome" where
  "unauthorized k = Rejected (JsError ''Request failed with status code 401'') 50"

definition unreachable :: "nat \<Rightarrow> probe_outcome" where
  "unreachable k = Rejected (JsError ''Network Error'') 3"

definition answers_as_stored :: "nat \<Rightarrow> nat \<Rightarrow> probe_outcome" where
  "answers_as_stored i k = (if i = 0 then Responded 200 12 else Responded 200 30)"

definition midnight :: "nat \<Rightarrow> string" where
  "midnight i = ''2024-01-01T00:00:00.000Z''"

section \<open>Vocabulary of the properties\<close>

fun isSetItem :: "event \<Rightarrow> bool" where
  "isSetItem (SetItem servers) = True"
| "isSetItem (Callback callback servers) = False"

text \<open>The number of writes to \<^verbatim>\<open>localStorage\<close> so far.\<close>

definition writes :: "service \<Rightarrow> nat" where
  "writes st = length (filter isSetItem (events st))"

text \<open>The results of a run of the monitor that differ from the objects the run read.\<close>

definition changedResults :: "check_run \<Rightarrow> check_run" where
  "changedResults results = filter (\<lambda>(i, server, result). changed server result) results"

definition watched :: service where
  "watched = (initial (Some [shopA, shopB]))\<lparr>monitorCallbacks := [1]\<rparr>"

text \<open>
  Store A now answers in 20 milliseconds, not in the 12 that are stored. Two runs of the
  monitor start one after the other, before either has resumed; then the first resumes.
\<close>

definition a_slower :: "nat \<Rightarrow> nat \<Rightarrow> probe_outcome" where
  "a_slower i k = (if i = 0 then Responded 200 20 else Responded 200 30)"

definition shopA_20 :: WooCommerceServer where
  "shopA_20 = shopA\<lparr>lastChecked := Some ''2024-01-01T00:00:00.000Z'', responseTime := Some 20\<rparr>"

definition second_run_waiting :: service where
  "second_run_waiting =
     run [CheckAllServersStatus a_slower, CheckAllServersStatus a_slower, ProbesSettle 0 midnight] watched"

text \<open>
  \<open>announced st st'\<close>: going from \<open>st\<close> to \<open>st'\<close> the collection was written once, and
  after the write every registered callback, in order of registration, was called with
  the list that \<^verbatim>\<open>getServers\<close> reads back from storage.
\<close>

definition announced :: "service \<Rightarrow> service \<Rightarrow> bool" where
  "announced st st' =
     (storage st' = Some (getServers st') \<and>
      events st' = events st @ SetItem (getServers st') #
        map (\<lambda>callback. Callback callback (getServers st')) (monitorCallbacks st))"


fun isStartMonitoring :: "action \<Rightarrow> bool" where
  "isStartMonitoring (StartMonitoring callback net) = True"
| "isStartMonitoring other = False"

text \<open>What holds of the timer and the subscribers in every state the service reaches.\<close>

definition monitor_inv :: "service \<Rightarrow> bool" where
  "monitor_inv st =
     ((monitorCallbacks st \<noteq> [] \<longrightarrow> monitoringInterval st \<noteq> None) \<and>
      (case monitoringInterval st of
         None \<Rightarrow> timers st = Map.empty
       | Some handle \<Rightarrow> timers st = [handle \<mapsto> 5000]))"

text \<open>The fields that only \<^verbatim>\<open>startMonitoring\<close> and \<^verbatim>\<open>stopMonitoring\<close> assign, with the timer table.\<close>

definition monitor_part :: "service \<Rightarrow> nat option \<times> nat list \<times> (nat \<rightharpoonup> nat) \<times> nat" where
  "monitor_part st = (monitoringInterval st, monitorCallbacks st, timers st, next_timer st)"

text \<open>A page that lists the same entity twice.\<close>

definition duplicate_page :: "nat \<Rightarrow> products_response" where
  "duplicate_page index = Inr [shirt 1, shirt 1]"

definition duplicate_order_page :: "nat \<Rightarrow> orders_response" where
  "duplicate_order_page index = Inr [(parcel 1, Inr []), (parcel 1, Inr [])]"

text \<open>A store whose aggregation request fails: the list request, or one notes request.\<close>

definition productStoreFails :: "products_response \<Rightarrow> bool" where
  "productStoreFails response = isl response"

definition orderStoreFails :: "orders_response \<Rightarrow> bool" where
  "orderStoreFails response =
     (case response of
        Inl err \<Rightarrow> True
      | Inr ordersData \<Rightarrow> list_ex (\<lambda>item. isl (snd item)) ordersData)"

text \<open>Store A answers with five entities, store B fails.\<close>

definition a_ok_b_fails :: "nat \<Rightarrow> products_response" where
  "a_ok_b_fails index = (if index = 0 then Inr (map shirt [1..5]) else Inl (JsError ''Network Error''))"

definition a_ok_b_notes_fail :: "nat \<Rightarrow> orders_response" where
  "a_ok_b_notes_fail index =
     (if index = 0 then Inr (map (\<lambda>n. (parcel n, Inr [])) [1..5])
      else Inr [(parcel 9, Inl (JsError ''Request failed with status code 500''))])"

text \<open>No page of the round lists an entity id twice.\<close>

definition productPagesDistinct :: "string list \<Rightarrow> (nat \<Rightarrow> products_response) \<Rightarrow> bool" where
  "productPagesDistinct selectedServers net =
     list_all (\<lambda>index. case net index of
                          Inl err \<Rightarrow> True
                        | Inr data \<Rightarrow> distinct (map product_id data))
       [0..<length selectedServers]"

definition orderPagesDistinct :: "string list \<Rightarrow> (nat \<Rightarrow> orders_response) \<Rightarrow> bool" where
  "orderPagesDistinct selectedServers net =
     list_all (\<lambda>index. case net index of
                          Inl err \<Rightarrow> True
                        | Inr ordersData \<Rightarrow> distinct (map (\<lambda>item. order_id (fst item)) ordersData))
       [0..<length selectedServers]"

text \<open>Five orders from store A, each with its notes.\<close>

definition a_orders :: "nat \<Rightarrow> orders_response" where
  "a_orders index = Inr (map (\<lambda>n. (parcel n, Inr [])) [1..5])"

text \<open>The entities of store A as the components keep them, and views that show five.\<close>

definition shirt_of_a :: "int \<Rightarrow> product" where
  "shirt_of_a n = (shirt n)\<lparr>product_store := Some \<lparr>pstore_id = ''a'', pstore_name = ''Shop A'',
     pstore_url = ''https://a.example''\<rparr>\<rparr>"

definition parcel_of_a :: "int \<Rightarrow> order" where
  "parcel_of_a n = (parcel n)\<lparr>order_notes := [],
     order_store := Some \<lparr>store_id = ''a'', store_name = ''Shop A''\<rparr>\<rparr>"

definition five_shirts :: products_view where
  "five_shirts = \<lparr>products = map shirt_of_a [1..5], products_loading = False,
     products_error = None, products_hasMore = False\<rparr>"

definition five_parcels :: orders_view where
  "five_parcels = \<lparr>orders = map parcel_of_a [1..5], orders_loading = False,
     orders_error = None, orders_hasMore = False\<rparr>"

section \<open>Properties\<close>

subsection \<open>Auxiliary facts\<close>

lemma findIndex_None: "(findIndex P xs = None) = (\<forall>x\<in>set xs. \<not> P x)"
  by (induction xs) auto

lemma findIndex_Some: "findIndex P xs = Some i \<Longrightarrow> i < length xs \<and> P (xs ! i)"
  by (induction xs arbitrary: i) (auto split: if_splits)

lemma length_withNotes: "withNotes server xs = Some ys \<Longrightarrow> length ys = length xs"
  by (induction server xs arbitrary: ys rule: withNotes.induct) (auto split: option.splits)

lemma withNotes_map_Inr:
  "withNotes server (map (\<lambda>n. (f n, Inr (g n))) ns) =
     Some (map (\<lambda>n. (f n)\<lparr>order_notes := g n,
        order_store := Some \<lparr>store_id = server_id server, store_name = name server\<rparr>\<rparr>) ns)"
  by (induction ns) auto

lemma upt_2: "[0..<2] = [0, Suc 0]"
  by (simp add: numeral_2_eq_2)

subsection \<open>Pagination heuristic\<close>

lemma length_full_pages: "length (allProducts [shopA, shopB] [''a'', ''b''] full_pages) = 40"
  by (simp add: allProducts_def productPromise_def full_pages_def shopA_def shopB_def upt_2)

lemma length_short_second_page: "length (allProducts [shopA, shopB] [''a'', ''b''] short_second_page) = 39"
  by (simp add: allProducts_def productPromise_def short_second_page_def shopA_def shopB_def upt_2)

lemma length_full_order_pages: "length (allOrders [shopA, shopB] [''a'', ''b''] full_order_pages) = 40"
  by (simp add: allOrders_def orderPromise_def full_order_pages_def withNotes_map_Inr
      shopA_def shopB_def upt_2)

lemma length_short_second_order_page:
  "length (allOrders [shopA, shopB] [''a'', ''b''] short_second_order_page) = 39"
  by (simp add: allOrders_def orderPromise_def short_second_order_page_def withNotes_map_Inr
      shopA_def shopB_def upt_2)

text \<open>
  Claim C1. After a fetch of orders or of products, \<^verbatim>\<open>hasMore\<close> is true if and only if the
  number of entities fetched in the round (\<^verbatim>\<open>allOrders.length\<close>, \<^verbatim>\<open>allProducts.length\<close>,
  counted before the entities already shown are filtered out) equals the number of selected
  stores times 20. With two selected stores a round of 40 entities gives true and a round
  of 39 gives false. Only the sum of what the stores contributed enters, not the length of
  any single store's page.
\<close>

theorem hasMore_iff_full_round:
  "orders_hasMore (fetchOrders servers selectedServers onet oview)
     = (length (allOrders servers selectedServers onet) = length selectedServers * 20) \<and>
   products_hasMore (fetchProducts servers selectedServers pnet pview)
     = (length (allProducts servers selectedServers pnet) = length selectedServers * 20) \<and>
   (length selectedServers = 2 \<longrightarrow>
      (length (allOrders servers selectedServers onet) = 40 \<longrightarrow>
         orders_hasMore (fetchOrders servers selectedServers onet oview)) \<and>
      (length (allOrders servers selectedServers onet) = 39 \<longrightarrow>
         \<not> orders_hasMore (fetchOrders servers selectedServers onet oview)) \<and>
      (length (allProducts servers selectedServers pnet) = 40 \<longrightarrow>
         products_hasMore (fetchProducts servers selectedServers pnet pview)) \<and>
      (length (allProducts servers selectedServers pnet) = 39 \<longrightarrow>
         \<not> products_hasMore (fetchProducts servers selectedServers pnet pview))) \<and>
   orders_hasMore (fetchOrders servers selectedServers onet oview)
     = ((\<Sum>index \<leftarrow> [0..<length selectedServers].
           length (orderPromise servers (onet index) (selectedServers ! index)))
        = length selectedServers * 20) \<and>
   products_hasMore (fetchProducts servers selectedServers pnet pview)
     = ((\<Sum>index \<leftarrow> [0..<length selectedServers].
           length (productPromise servers (pnet index) (selectedServers ! index)))
        = length selectedServers * 20)"
proof -
  have "length (allOrders servers selectedServers onet)
      = (\<Sum>index \<leftarrow> [0..<length selectedServers].
           length (orderPromise servers (onet index) (selectedServers ! index)))"
    by (simp add: allOrders_def length_concat comp_def)
  moreover have "length (allProducts servers selectedServers pnet)
      = (\<Sum>index \<leftarrow> [0..<length selectedServers].
           length (productPromise servers (pnet index) (selectedServers ! index)))"
    by (simp add: allProducts_def length_concat comp_def)
  moreover have "orders_hasMore (fetchOrders servers selectedServers onet oview)
      = (length (allOrders servers selectedServers onet) = length selectedServers * 20)"
    by (simp add: fetchOrders_def Let_def)
  moreover have "products_hasMore (fetchProducts servers selectedServers pnet pview)
      = (length (allProducts servers selectedServers pnet) = length selectedServers * 20)"
    by (simp add: fetchProducts_def Let_def)
  ultimately show ?thesis
    by simp
qed

text \<open>
  Two selected stores: a full page from each gives 40 entities and \<^verbatim>\<open>hasMore\<close>; a full
  page and a page of 19 give 39 and no \<^verbatim>\<open>hasMore\<close>, although the first store's page was
  full.
\<close>

theorem hasMore_iff_full_round_witness:
  "length [''a'', ''b''] = 2 \<and>
   length (allOrders [shopA, shopB] [''a'', ''b''] full_order_pages) = 40 \<and>
   orders_hasMore (fetchOrders [shopA, shopB] [''a'', ''b''] full_order_pages no_orders) \<and>
   length (allOrders [shopA, shopB] [''a'', ''b''] short_second_order_page) = 39 \<and>
   \<not> orders_hasMore (fetchOrders [shopA, shopB] [''a'', ''b''] short_second_order_page no_orders) \<and>
   length (allProducts [shopA, shopB] [''a'', ''b''] full_pages) = 40 \<and>
   products_hasMore (fetchProducts [shopA, shopB] [''a'', ''b''] full_pages no_products) \<and>
   length (allProducts [shopA, shopB] [''a'', ''b''] short_second_page) = 39 \<and>
   \<not> products_hasMore (fetchProducts [shopA, shopB] [''a'', ''b''] short_second_page no_products)"
  using hasMore_iff_full_round [of "[shopA, shopB]" "[''a'', ''b'']" full_order_pages no_orders
      full_pages no_products]
    hasMore_iff_full_round [of "[shopA, shopB]" "[''a'', ''b'']" short_second_order_page no_orders
      short_second_page no_products]
    length_full_order_pages length_short_second_order_page length_full_pages
    length_short_second_page
  by simp

subsection \<open>Registry operations\<close>

text \<open>
  Claim C10. When no record of the registry has the given id, \<^verbatim>\<open>updateServer\<close> does
  nothing: the service is as before, so the stored collection is untouched, nothing is
  written and no observer is called.
\<close>

theorem updateServer_absent_noop:
  "serverId \<notin> set (map server_id (getServers st)) \<Longrightarrow>
     updateServer serverId updates st = st \<and>
     storage (updateServer serverId updates st) = storage st \<and>
     events (updateServer serverId updates st) = events st"
proof -
  assume "serverId \<notin> set (map server_id (getServers st))"
  then have "findIndex (\<lambda>s. server_id s = serverId) (getServers st) = None"
    by (auto simp: findIndex_None)
  then have "updateServer serverId updates st = st"
    by (simp add: updateServer_def)
  then show ?thesis by simp
qed

theorem updateServer_absent_noop_witness:
  "''b'' \<notin> set (map server_id (getServers (initial (Some [shopA])))) \<and>
   updateServer ''b'' (no_updates\<lparr>upd_name := Some ''Other''\<rparr>) (initial (Some [shopA]))
     = initial (Some [shopA])"
  using updateServer_absent_noop [of "''b''" "initial (Some [shopA])"
      "no_updates\<lparr>upd_name := Some ''Other''\<rparr>"]
  by (simp add: getServers_def initial_def shopA_def)

subsection \<open>Health check\<close>

lemma show_nat_3: "show_nat 3 = ''3''"
  by (simp add: show_nat.simps digit_char_def)

lemma show_nat_Suc3: "show_nat (Suc (Suc (Suc 0))) = ''3''"
  using show_nat_3 by (simp add: numeral_3_eq_3)

lemma show_nat_2: "show_nat 2 = ''2''"
  by (simp add: show_nat.simps digit_char_def)

lemma isTimeout_timeout_error: "isTimeout timeout_error"
  by (simp add: timeout_error_def)

lemma requests_bounds:
  "0 < snd (checkServerWithRetry probe server k) \<and>
   snd (checkServerWithRetry probe server k) \<le> Suc (MAX_RETRIES - k)"
proof (induction probe server k rule: checkServerWithRetry.induct)
  case (1 probe server retryCount)
  show ?case
  proof (cases "probe retryCount")
    case (Responded code elapsed)
    then show ?thesis by (simp add: checkServerWithRetry.simps [of probe server retryCount])
  next
    case (Rejected error elapsed)
    show ?thesis
    proof (cases "isTimeout error \<and> retryCount < MAX_RETRIES")
      case True
      with 1 Rejected have "0 < snd (checkServerWithRetry probe server (retryCount + 1)) \<and>
        snd (checkServerWithRetry probe server (retryCount + 1)) \<le> Suc (MAX_RETRIES - (retryCount + 1))"
        by blast
      with True Rejected show ?thesis
        by (auto simp add: checkServerWithRetry.simps [of probe server retryCount] split: prod.splits)
    next
      case False
      with Rejected show ?thesis
        by (auto simp add: checkServerWithRetry.simps [of probe server retryCount])
    qed
  qed
qed

text \<open>The result of the call that makes the last request.\<close>

lemma final_attempt:
  "checkServerWithRetry probe server k = (result, n) \<Longrightarrow>
     0 < n \<and>
     (case probe (k + n - 1) of
        Responded code elapsed \<Rightarrow>
          result = \<lparr>result_status = (if code = 200 then Online else Error),
            result_errorMessage = (if code \<noteq> 200 then Some ''Server returned unexpected status'' else None),
            result_responseTime = Some elapsed\<rparr>
      | Rejected error elapsed \<Rightarrow>
          result = \<lparr>result_status = (if isNetworkError error then Offline else Error),
              result_errorMessage = Some (failureMessage error (k + n - 1)),
              result_responseTime = Some elapsed\<rparr>)"
proof (induction probe server k arbitrary: result n rule: checkServerWithRetry.induct)
  case (1 probe server retryCount)
  show ?case
  proof (cases "probe retryCount")
    case (Responded code elapsed)
    with "1.prems" show ?thesis
      by (auto simp add: checkServerWithRetry.simps [of probe server retryCount])
  next
    case (Rejected error elapsed)
    show ?thesis
    proof (cases "isTimeout error \<and> retryCount < MAX_RETRIES")
      case True
      with "1.prems" Rejected obtain m where
        rec: "checkServerWithRetry probe server (retryCount + 1) = (result, m)" and n: "n = Suc m"
        by (auto simp add: checkServerWithRetry.simps [of probe server retryCount] split: prod.splits)
      from "1.IH" [OF Rejected True rec] n show ?thesis
        by (cases m) (auto split: probe_outcome.splits)
    next
      case False
      with "1.prems" Rejected show ?thesis
        by (auto simp add: checkServerWithRetry.simps [of probe server retryCount])
    qed
  qed
qed


lemma retry_step:
  "probe k = Rejected error elapsed \<Longrightarrow> isTimeout error \<Longrightarrow> k < MAX_RETRIES \<Longrightarrow>
     checkServerWithRetry probe server k =
       (fst (checkServerWithRetry probe server (Suc k)), Suc (snd (checkServerWithRetry probe server (Suc k))))"
  by (simp add: checkServerWithRetry.simps [of probe server k] split: prod.splits)

lemma respond_step:
  "probe k = Responded code elapsed \<Longrightarrow>
     checkServerWithRetry probe server k =
       (\<lparr>result_status = (if code = 200 then Online else Error),
         result_errorMessage = (if code \<noteq> 200 then Some ''Server returned unexpected status'' else None),
         result_responseTime = Some elapsed\<rparr>, 1)"
  by (simp add: checkServerWithRetry.simps [of probe server k])

lemma give_up_step:
  "probe k = Rejected error elapsed \<Longrightarrow> \<not> (isTimeout error \<and> k < MAX_RETRIES) \<Longrightarrow>
     checkServerWithRetry probe server k =
       (\<lparr>result_status = (if isNetworkError error then Offline else Error),
         result_errorMessage = Some (failureMessage error k),
         result_responseTime = Some elapsed\<rparr>, 1)"
  by (auto simp add: checkServerWithRetry.simps [of probe server k])

lemma isNetworkError_timeout: "isTimeout error \<Longrightarrow> isNetworkError error"
  by (cases error) auto

text \<open>
  Claim C3. A probe sequence whose first two requests time out and whose third is answered
  with status 200 ends with the store online, after three requests. A sequence whose three
  requests all time out ends with the store offline and the message of the last timeout
  followed by \<^verbatim>\<open> (after 3 attempts)\<close>. Whatever the network answers, a check makes at
  least one request and at most two retries.
\<close>

theorem health_check_retry:
  "(isTimeout ea \<and> isTimeout eb \<and> probe 0 = Rejected ea ta \<and> probe 1 = Rejected eb tb \<and>
      probe 2 = Responded 200 tc \<longrightarrow>
        result_status (checkServerStatus probe server) = Online \<and>
        snd (checkServerWithRetry probe server 0) = 3) \<and>
   (isTimeout ea \<and> isTimeout eb \<and> isTimeout (JsError message) \<and>
      probe 0 = Rejected ea ta \<and> probe 1 = Rejected eb tb \<and>
      probe 2 = Rejected (JsError message) tc \<longrightarrow>
        result_status (checkServerStatus probe server) = Offline \<and>
        result_errorMessage (checkServerStatus probe server) = Some (message @ '' (after 3 attempts)'') \<and>
        snd (checkServerWithRetry probe server 0) = 3) \<and>
   0 < snd (checkServerWithRetry probe server 0) \<and>
   snd (checkServerWithRetry probe server 0) - 1 \<le> 2"
proof (intro conjI impI)
  assume a: "isTimeout ea \<and> isTimeout eb \<and> probe 0 = Rejected ea ta \<and> probe 1 = Rejected eb tb \<and>
      probe 2 = Responded 200 tc"
  then have p1: "probe (Suc 0) = Rejected eb tb" and p2: "probe (Suc (Suc 0)) = Responded 200 tc"
    by (simp_all add: numeral_2_eq_2)
  have "checkServerWithRetry probe server 0 =
      (\<lparr>result_status = Online, result_errorMessage = None, result_responseTime = Some tc\<rparr>, 3)"
    using a p1 p2
    by (simp add: retry_step [of probe 0 ea ta] retry_step [of probe "Suc 0" eb tb]
        respond_step [of probe "Suc (Suc 0)" 200 tc] MAX_RETRIES_def)
  then show "result_status (checkServerStatus probe server) = Online"
    and "snd (checkServerWithRetry probe server 0) = 3"
    by (simp_all add: checkServerStatus_def)
next
  assume a: "isTimeout ea \<and> isTimeout eb \<and> isTimeout (JsError message) \<and>
      probe 0 = Rejected ea ta \<and> probe 1 = Rejected eb tb \<and>
      probe 2 = Rejected (JsError message) tc"
  then have p1: "probe (Suc 0) = Rejected eb tb"
    and p2: "probe (Suc (Suc 0)) = Rejected (JsError message) tc"
    by (simp_all add: numeral_2_eq_2)
  have net: "isNetworkError (JsError message)"
    using a isNetworkError_timeout by blast
  have "checkServerWithRetry probe server 0 =
      (\<lparr>result_status = Offline,
        result_errorMessage = Some (message @ '' (after 3 attempts)''),
        result_responseTime = Some tc\<rparr>, 3)"
    using a p1 p2 net
    by (simp add: retry_step [of probe 0 ea ta] retry_step [of probe "Suc 0" eb tb]
        give_up_step [of probe "Suc (Suc 0)" "JsError message" tc] MAX_RETRIES_def
        show_nat_Suc3 del: isNetworkError.simps isTimeout.simps)
  then show "result_status (checkServerStatus probe server) = Offline"
    and "result_errorMessage (checkServerStatus probe server) = Some (message @ '' (after 3 attempts)'')"
    and "snd (checkServerWithRetry probe server 0) = 3"
    by (simp_all add: checkServerStatus_def)
next
  show "0 < snd (checkServerWithRetry probe server 0)"
    using requests_bounds [of probe server 0] by simp
  show "snd (checkServerWithRetry probe server 0) - 1 \<le> 2"
    using requests_bounds [of probe server 0] unfolding MAX_RETRIES_def by arith
qed

lemma two_timeouts_then_ok_eval:
  "checkServerWithRetry two_timeouts_then_ok shopA 0 =
     (\<lparr>result_status = Online, result_errorMessage = None, result_responseTime = Some 35\<rparr>, 3)"
  by (simp add: retry_step [of two_timeouts_then_ok 0 timeout_error 10001]
        retry_step [of two_timeouts_then_ok "Suc 0" timeout_error 10002]
        respond_step [of two_timeouts_then_ok "Suc (Suc 0)" 200 35]
        two_timeouts_then_ok_def isTimeout_timeout_error MAX_RETRIES_def)

lemma always_timeout_eval:
  "checkServerWithRetry always_timeout shopA 0 =
     (\<lparr>result_status = Offline,
       result_errorMessage = Some ''timeout of 10000ms exceeded (after 3 attempts)'',
       result_responseTime = Some 10003\<rparr>, 3)"
  by (simp add: retry_step [of always_timeout 0 timeout_error 10003]
        retry_step [of always_timeout "Suc 0" timeout_error 10003]
        give_up_step [of always_timeout "Suc (Suc 0)" timeout_error 10003]
        always_timeout_def isTimeout_timeout_error MAX_RETRIES_def show_nat_Suc3
        isNetworkError_timeout)
     (simp add: timeout_error_def show_nat_Suc3)


theorem health_check_retry_witness:
  "isTimeout timeout_error \<and>
   two_timeouts_then_ok 0 = Rejected timeout_error 10001 \<and>
   two_timeouts_then_ok 1 = Rejected timeout_error 10002 \<and>
   two_timeouts_then_ok 2 = Responded 200 35 \<and>
   result_status (checkServerStatus two_timeouts_then_ok shopA) = Online \<and>
   always_timeout 0 = Rejected timeout_error 10003 \<and>
   always_timeout 1 = Rejected timeout_error 10003 \<and>
   always_timeout 2 = Rejected (JsError ''timeout of 10000ms exceeded'') 10003 \<and>
   result_status (checkServerStatus always_timeout shopA) = Offline \<and>
   result_errorMessage (checkServerStatus always_timeout shopA)
     = Some ''timeout of 10000ms exceeded (after 3 attempts)'' \<and>
   snd (checkServerWithRetry always_timeout shopA 0) = 3"
  using health_check_retry [where probe = two_timeouts_then_ok and ea = timeout_error
      and eb = timeout_error and ta = 10001 and tb = 10002 and tc = 35 and server = shopA]
    health_check_retry [where probe = always_timeout and ea = timeout_error
      and eb = timeout_error and ta = 10003 and tb = 10003 and tc = 10003 and server = shopA
      and message = "''timeout of 10000ms exceeded''"]
  by (simp add: two_timeouts_then_ok_def always_timeout_def timeout_error_def)

text \<open>
  Claim C4, as amended. Let a check make \<open>n\<close> requests, so that \<open>n - 1\<close> retries occurred.
  If the last request is rejected, the status is offline exactly when the thrown value is
  an \<^verbatim>\<open>Error\<close> whose message contains \<^verbatim>\<open>Network Error\<close>, \<^verbatim>\<open>timeout\<close> or
  \<^verbatim>\<open>ECONNABORTED\<close>, and error otherwise; the message is the \<^verbatim>\<open>Error\<close>'s message, with
  \<^verbatim>\<open> (after n attempts)\<close> appended exactly when a retry occurred, and the fixed text
  \<^verbatim>\<open>Unknown error occurred\<close> when the thrown value is no \<^verbatim>\<open>Error\<close>. If the last request
  is answered with a status other than 200, the status is error and the message is the
  fixed text \<^verbatim>\<open>Server returned unexpected status\<close>.
\<close>

theorem final_failure_classification:
  assumes "checkServerWithRetry probe server 0 = (result, n)"
  shows "(probe (n - 1) = Rejected error elapsed \<longrightarrow>
            result_status result = (if isNetworkError error then Offline else Error) \<and>
            result_errorMessage result =
              Some (case error of
                      JsError message \<Rightarrow>
                        message @ (if 1 < n then '' (after '' @ show_nat n @ '' attempts)'' else [])
                    | NonError \<Rightarrow> ''Unknown error occurred'') \<and>
            result_responseTime result = Some elapsed) \<and>
         (probe (n - 1) = Responded code elapsed \<and> code \<noteq> 200 \<longrightarrow>
            result_status result = Error \<and>
            result_errorMessage result = Some ''Server returned unexpected status'') \<and>
         0 < n \<and> n - 1 \<le> MAX_RETRIES"
proof -
  from final_attempt [OF assms] have n: "0 < n" and
    fin: "case probe (n - 1) of
        Responded code elapsed \<Rightarrow>
          result = \<lparr>result_status = (if code = 200 then Online else Error),
            result_errorMessage = (if code \<noteq> 200 then Some ''Server returned unexpected status'' else None),
            result_responseTime = Some elapsed\<rparr>
      | Rejected error elapsed \<Rightarrow>
          result = \<lparr>result_status = (if isNetworkError error then Offline else Error),
              result_errorMessage = Some (failureMessage error (n - 1)),
              result_responseTime = Some elapsed\<rparr>"
    by (auto split: probe_outcome.splits)
  have msg: "failureMessage error (n - 1) =
      (case error of
         JsError message \<Rightarrow>
           message @ (if 1 < n then '' (after '' @ show_nat n @ '' attempts)'' else [])
       | NonError \<Rightarrow> ''Unknown error occurred'')"
    using n by (cases error) auto
  have bound: "n - 1 \<le> MAX_RETRIES"
    using requests_bounds [of probe server 0] assms by auto
  show ?thesis
    using fin msg n bound by (auto split: probe_outcome.splits)
qed

lemma timeout_then_unknown_eval:
  "checkServerWithRetry timeout_then_unknown shopA 0 =
     (\<lparr>result_status = Error, result_errorMessage = Some ''Unknown error occurred'',
       result_responseTime = Some 8\<rparr>, 2)"
  by (simp add: retry_step [of timeout_then_unknown 0 timeout_error 10001]
        give_up_step [of timeout_then_unknown "Suc 0" NonError 8]
        timeout_then_unknown_def isTimeout_timeout_error MAX_RETRIES_def)

lemma timeout_then_no_content_eval:
  "checkServerWithRetry timeout_then_no_content shopA 0 =
     (\<lparr>result_status = Error, result_errorMessage = Some ''Server returned unexpected status'',
       result_responseTime = Some 40\<rparr>, 2)"
  by (simp add: retry_step [of timeout_then_no_content 0 timeout_error 10001]
        respond_step [of timeout_then_no_content "Suc 0" 204 40]
        timeout_then_no_content_def isTimeout_timeout_error MAX_RETRIES_def)

lemma unauthorized_eval:
  "checkServerWithRetry unauthorized shopA 0 =
     (\<lparr>result_status = Error, result_errorMessage = Some ''Request failed with status code 401'',
       result_responseTime = Some 50\<rparr>, 1)"
  by (simp add: give_up_step [of unauthorized 0 "JsError ''Request failed with status code 401''" 50]
        unauthorized_def)

text \<open>
  Claim C4 as stated fails: after a retry, a thrown value that is no \<^verbatim>\<open>Error\<close>, and
  likewise a response with status 204, end the check with status error and a message
  that does not carry the attempt count.
\<close>

theorem attempt_count_not_always_appended:
  "checkServerWithRetry timeout_then_unknown shopA 0 =
     (\<lparr>result_status = Error, result_errorMessage = Some ''Unknown error occurred'',
       result_responseTime = Some 8\<rparr>, 2) \<and>
   checkServerWithRetry timeout_then_no_content shopA 0 =
     (\<lparr>result_status = Error, result_errorMessage = Some ''Server returned unexpected status'',
       result_responseTime = Some 40\<rparr>, 2)"
  using timeout_then_unknown_eval timeout_then_no_content_eval by simp

theorem final_failure_classification_witness:
  "checkServerWithRetry always_timeout shopA 0 =
     (\<lparr>result_status = Offline,
       result_errorMessage = Some ''timeout of 10000ms exceeded (after 3 attempts)'',
       result_responseTime = Some 10003\<rparr>, 3) \<and>
   always_timeout (3 - 1) = Rejected (JsError ''timeout of 10000ms exceeded'') 10003 \<and>
   isNetworkError (JsError ''timeout of 10000ms exceeded'') \<and>
   show_nat 3 = ''3'' \<and>
   checkServerWithRetry unauthorized shopA 0 =
     (\<lparr>result_status = Error, result_errorMessage = Some ''Request failed with status code 401'',
       result_responseTime = Some 50\<rparr>, 1) \<and>
   unauthorized (1 - 1) = Rejected (JsError ''Request failed with status code 401'') 50 \<and>
   \<not> isNetworkError (JsError ''Request failed with status code 401'') \<and>
   checkServerWithRetry timeout_then_no_content shopA 0 =
     (\<lparr>result_status = Error, result_errorMessage = Some ''Server returned unexpected status'',
       result_responseTime = Some 40\<rparr>, 2) \<and>
   timeout_then_no_content (2 - 1) = Responded 204 40 \<and> (204::nat) \<noteq> 200"
  using final_failure_classification [OF always_timeout_eval,
      where error = "JsError ''timeout of 10000ms exceeded''" and elapsed = 10003]
    final_failure_classification [OF unauthorized_eval,
      where error = "JsError ''Request failed with status code 401''" and elapsed = 50]
    final_failure_classification [OF timeout_then_no_content_eval,
      where code = 204 and elapsed = 40]
    always_timeout_eval unauthorized_eval timeout_then_no_content_eval show_nat_3
  by (simp add: always_timeout_def unauthorized_def timeout_then_no_content_def timeout_error_def)

subsection \<open>Monitor\<close>

lemma writes_notify: "writes (notifyMonitorCallbacks st) = writes st"
  by (simp add: writes_def notifyMonitorCallbacks_def Let_def filter_map comp_def)

lemma writes_updateServer: "writes (updateServer serverId updates st) \<le> Suc (writes st)"
  by (auto simp add: updateServer_def Let_def writes_notify split: option.splits)
     (simp add: writes_def setItem_def)

lemma recordResult_same:
  "\<not> changed server result \<Longrightarrow> recordResult now (st, hasChanges) (i, server, result) = (st, hasChanges)"
  by (simp add: recordResult_def)

lemma recordResult_writes:
  "writes (fst (recordResult now (st, hasChanges) (i, server, result)))
     \<le> writes st + (if changed server result then 1 else 0)"
  using writes_updateServer by (simp add: recordResult_def)

lemma foldl_recordResult_same:
  "\<forall>(i, server, result) \<in> set items. \<not> changed server result \<Longrightarrow>
     foldl (recordResult now) (st, hasChanges) items = (st, hasChanges)"
  by (induction items) (auto simp add: recordResult_same)

lemma foldl_recordResult_writes:
  "writes (fst (foldl (recordResult now) (st, hasChanges) items))
     \<le> writes st + length (filter (\<lambda>(i, server, result). changed server result) items)"
proof (induction items arbitrary: st hasChanges)
  case Nil
  then show ?case by simp
next
  case (Cons item items)
  obtain i server result where item: "item = (i, server, result)"
    by (cases item) auto
  obtain st' hc' where step: "recordResult now (st, hasChanges) (i, server, result) = (st', hc')"
    by (cases "recordResult now (st, hasChanges) (i, server, result)") auto
  from recordResult_writes [of now st hasChanges i server result] step
  have "writes st' \<le> writes st + (if changed server result then 1 else 0)" by simp
  moreover from Cons.IH [of st' hc']
  have "writes (fst (foldl (recordResult now) (st', hc') items))
      \<le> writes st' + length (filter (\<lambda>(i, server, result). changed server result) items)" .
  ultimately show ?case using item step by auto
qed

lemma settle_last:
  "probesSettle (length (inflight st)) now (checkAllServersStatus net st)
     = checkAllServersStatus_resumed now (probeAll net (getServers st)) st"
  by (simp add: probesSettle_def checkAllServersStatus_def Let_def)

lemma probeAll_stored:
  "\<forall>i < length servers. \<not> changed (servers ! i) (checkServerStatus (net i) (servers ! i)) \<Longrightarrow>
     \<forall>(i, server, result) \<in> set (probeAll net servers). \<not> changed server result"
  by (auto simp add: probeAll_def)

text \<open>
  Claim C5, as amended. When a run of the monitor resumes, a store whose derived status,
  error message and response time all equal the values of the object that the run read
  from storage when it started causes no write and no call of a subscriber. If this holds
  for every store, the run leaves the service untouched, the closing notification
  included. The run writes at most once per result that differs from what it read, and a
  run that changes the service at all has met such a result. Calling the function only adds
  a waiting run. A run that starts and resumes with nothing in between compares with what
  is stored: if no store's derived values differ from the stored ones, the service is
  afterwards exactly as it was.
\<close>

theorem monitor_idempotence:
  "(\<not> changed server result \<longrightarrow>
      recordResult now (st, hasChanges) (i, server, result) = (st, hasChanges)) \<and>
   ((\<forall>(i, server, result) \<in> set results. \<not> changed server result) \<longrightarrow>
      checkAllServersStatus_resumed now results st = st) \<and>
   writes (checkAllServersStatus_resumed now results st) \<le> writes st + length (changedResults results) \<and>
   (checkAllServersStatus_resumed now results st \<noteq> st \<longrightarrow>
      (\<exists>(i, server, result) \<in> set results. changed server result)) \<and>
   checkAllServersStatus net st = st\<lparr>inflight := inflight st @ [probeAll net (getServers st)]\<rparr> \<and>
   ((\<forall>i < length (getServers st).
        \<not> changed (getServers st ! i) (checkServerStatus (net i) (getServers st ! i))) \<longrightarrow>
      probesSettle (length (inflight st)) now (checkAllServersStatus net st) = st)"
proof -
  have same: "checkAllServersStatus_resumed now results st = st"
    if "\<forall>(i, server, result) \<in> set results. \<not> changed server result" for results
    using foldl_recordResult_same [OF that, of now st False]
    by (simp add: checkAllServersStatus_resumed_def)
  have "writes (checkAllServersStatus_resumed now results st)
      = writes (fst (foldl (recordResult now) (st, False) results))"
    by (simp add: checkAllServersStatus_resumed_def writes_notify split: prod.splits)
  with foldl_recordResult_writes [of now st False results]
  have count: "writes (checkAllServersStatus_resumed now results st) \<le> writes st + length (changedResults results)"
    by (simp add: changedResults_def)
  have call: "checkAllServersStatus net st = st\<lparr>inflight := inflight st @ [probeAll net (getServers st)]\<rparr>"
    by (simp add: checkAllServersStatus_def Let_def)
  have whole: "probesSettle (length (inflight st)) now (checkAllServersStatus net st) = st"
    if "\<forall>i < length (getServers st).
        \<not> changed (getServers st ! i) (checkServerStatus (net i) (getServers st ! i))"
    using same [OF probeAll_stored [OF that]] by (simp add: settle_last)
  from same [of results] count call whole show ?thesis
    by (auto simp add: recordResult_same)
qed


lemma getServers_watched: "getServers watched = [shopA, shopB]"
  by (simp add: getServers_def watched_def initial_def)

lemma probeAll_watched:
  "probeAll answers_as_stored (getServers watched) =
     [(0, shopA, \<lparr>result_status = Online, result_errorMessage = None, result_responseTime = Some 12\<rparr>),
      (1, shopB, \<lparr>result_status = Online, result_errorMessage = None, result_responseTime = Some 30\<rparr>)]"
  by (simp add: probeAll_def getServers_watched upt_2 checkServerStatus_def
      respond_step [of "answers_as_stored 0" 0 200 12] respond_step [of "answers_as_stored (Suc 0)" 0 200 30]
      answers_as_stored_def)

lemma probeAll_a_slower:
  "probeAll a_slower [shopA, shopB] =
     [(0, shopA, \<lparr>result_status = Online, result_errorMessage = None, result_responseTime = Some 20\<rparr>),
      (1, shopB, \<lparr>result_status = Online, result_errorMessage = None, result_responseTime = Some 30\<rparr>)]"
  by (simp add: probeAll_def upt_2 checkServerStatus_def
      respond_step [of "a_slower 0" 0 200 20] respond_step [of "a_slower (Suc 0)" 0 200 30]
      a_slower_def)

lemma changed_examples:
  "\<not> changed shopA \<lparr>result_status = Online, result_errorMessage = None, result_responseTime = Some 12\<rparr>"
  "\<not> changed shopB \<lparr>result_status = Online, result_errorMessage = None, result_responseTime = Some 30\<rparr>"
  "changed shopA \<lparr>result_status = Online, result_errorMessage = None, result_responseTime = Some 20\<rparr>"
  "\<not> changed shopA_20 \<lparr>result_status = Online, result_errorMessage = None, result_responseTime = Some 20\<rparr>"
  by (simp_all add: changed_def shopA_def shopB_def shopA_20_def)

lemma update_a:
  "getServers st = [x, shopB] \<Longrightarrow> server_id x = ''a'' \<Longrightarrow>
   spread x (no_updates\<lparr>upd_status := Some (Some Online), upd_errorMessage := Some None,
       upd_responseTime := Some (Some 20), upd_lastChecked := Some (Some (midnight 0))\<rparr>) = shopA_20 \<Longrightarrow>
   updateServer ''a'' (no_updates\<lparr>upd_status := Some (Some Online), upd_errorMessage := Some None,
       upd_responseTime := Some (Some 20), upd_lastChecked := Some (Some (midnight 0))\<rparr>) st
     = st\<lparr>storage := Some [shopA_20, shopB],
          events := events st @ SetItem [shopA_20, shopB] #
            map (\<lambda>callback. Callback callback [shopA_20, shopB]) (monitorCallbacks st)\<rparr>"
  by (simp add: updateServer_def Let_def setItem_def notifyMonitorCallbacks_def getServers_def)

lemma spread_shopA:
  "spread shopA (no_updates\<lparr>upd_status := Some (Some Online), upd_errorMessage := Some None,
       upd_responseTime := Some (Some 20), upd_lastChecked := Some (Some (midnight 0))\<rparr>) = shopA_20"
  "spread shopA_20 (no_updates\<lparr>upd_status := Some (Some Online), upd_errorMessage := Some None,
       upd_responseTime := Some (Some 20), upd_lastChecked := Some (Some (midnight 0))\<rparr>) = shopA_20"
  by (simp_all add: spread_def no_updates_def shopA_20_def shopA_def midnight_def)

lemma server_id_shopA: "server_id shopA = ''a''"
  by (simp add: shopA_def)

lemma resumed_with_a_slower:
  assumes "getServers st = [x, shopB]" and "server_id x = ''a''"
    and "spread x (no_updates\<lparr>upd_status := Some (Some Online), upd_errorMessage := Some None,
       upd_responseTime := Some (Some 20), upd_lastChecked := Some (Some (midnight 0))\<rparr>) = shopA_20"
  shows "checkAllServersStatus_resumed midnight (probeAll a_slower [shopA, shopB]) st
     = st\<lparr>storage := Some [shopA_20, shopB],
          events := events st @ SetItem [shopA_20, shopB] #
            map (\<lambda>callback. Callback callback [shopA_20, shopB]) (monitorCallbacks st) @
            map (\<lambda>callback. Callback callback [shopA_20, shopB]) (monitorCallbacks st)\<rparr>"
proof -
  let ?st' = "st\<lparr>storage := Some [shopA_20, shopB],
          events := events st @ SetItem [shopA_20, shopB] #
            map (\<lambda>callback. Callback callback [shopA_20, shopB]) (monitorCallbacks st)\<rparr>"
  have "foldl (recordResult midnight) (st, False) (probeAll a_slower [shopA, shopB]) = (?st', True)"
    by (simp add: probeAll_a_slower recordResult_def changed_examples server_id_shopA
        update_a [OF assms])
  moreover have "notifyMonitorCallbacks ?st' = ?st'\<lparr>events := events ?st' @
      map (\<lambda>callback. Callback callback [shopA_20, shopB]) (monitorCallbacks st)\<rparr>"
    by (simp add: notifyMonitorCallbacks_def getServers_def Let_def)
  ultimately show ?thesis
    by (simp add: checkAllServersStatus_resumed_def)
qed

lemma second_run_waiting_eq:
  "second_run_waiting =
     watched\<lparr>storage := Some [shopA_20, shopB],
       inflight := [probeAll a_slower [shopA, shopB]],
       events := [SetItem [shopA_20, shopB], Callback 1 [shopA_20, shopB], Callback 1 [shopA_20, shopB]]\<rparr>"
proof -
  let ?two = "watched\<lparr>inflight := [probeAll a_slower [shopA, shopB], probeAll a_slower [shopA, shopB]]\<rparr>"
  have two: "run [CheckAllServersStatus a_slower, CheckAllServersStatus a_slower] watched = ?two"
    by (simp add: run_def checkAllServersStatus_def Let_def getServers_watched)
       (simp add: watched_def initial_def getServers_def)
  have "probesSettle 0 midnight ?two =
      checkAllServersStatus_resumed midnight (probeAll a_slower [shopA, shopB])
        (watched\<lparr>inflight := [probeAll a_slower [shopA, shopB]]\<rparr>)"
    by (simp add: probesSettle_def)
  also have "\<dots> = watched\<lparr>storage := Some [shopA_20, shopB],
       inflight := [probeAll a_slower [shopA, shopB]],
       events := [SetItem [shopA_20, shopB], Callback 1 [shopA_20, shopB], Callback 1 [shopA_20, shopB]]\<rparr>"
    by (subst resumed_with_a_slower [of _ shopA])
       (simp_all add: spread_shopA getServers_def watched_def initial_def, simp add: shopA_def)
  finally show ?thesis
    using two by (simp add: second_run_waiting_def run_def)
qed


lemma second_run_resumes:
  "probesSettle 0 midnight second_run_waiting =
     watched\<lparr>storage := Some [shopA_20, shopB],
       inflight := [],
       events := [SetItem [shopA_20, shopB], Callback 1 [shopA_20, shopB], Callback 1 [shopA_20, shopB],
                  SetItem [shopA_20, shopB], Callback 1 [shopA_20, shopB], Callback 1 [shopA_20, shopB]]\<rparr>"
proof -
  let ?st = "watched\<lparr>storage := Some [shopA_20, shopB],
       inflight := [],
       events := [SetItem [shopA_20, shopB], Callback 1 [shopA_20, shopB], Callback 1 [shopA_20, shopB]]\<rparr>"
  have "probesSettle 0 midnight second_run_waiting =
      checkAllServersStatus_resumed midnight (probeAll a_slower [shopA, shopB]) ?st"
    by (simp add: second_run_waiting_eq probesSettle_def watched_def initial_def)
  also have "\<dots> = ?st\<lparr>storage := Some [shopA_20, shopB],
          events := events ?st @ SetItem [shopA_20, shopB] #
            map (\<lambda>callback. Callback callback [shopA_20, shopB]) (monitorCallbacks ?st) @
            map (\<lambda>callback. Callback callback [shopA_20, shopB]) (monitorCallbacks ?st)\<rparr>"
  proof (rule resumed_with_a_slower [of _ shopA_20])
    show "getServers ?st = [shopA_20, shopB]"
      by (simp add: getServers_def)
    show "server_id shopA_20 = ''a''"
      by (simp add: shopA_20_def shopA_def)
    show "spread shopA_20 (no_updates\<lparr>upd_status := Some (Some Online), upd_errorMessage := Some None,
       upd_responseTime := Some (Some 20), upd_lastChecked := Some (Some (midnight 0))\<rparr>) = shopA_20"
      by (rule spread_shopA(2))
  qed
  finally show ?thesis
    by (simp add: watched_def)
qed

text \<open>
  Claim C5 as stated fails when runs overlap, as they do whenever the probes of one run
  take longer than the five seconds to the next tick. Two runs read the same stored
  response time of 12 and both find 20. When the first has resumed and written 20, the
  second compares its results with the objects it read, not with storage: its results
  equal what is stored, yet it writes the collection again and calls the subscriber twice.
\<close>

theorem stale_snapshot_rewrites:
  "inflight second_run_waiting =
     [[(0, shopA, \<lparr>result_status = Online, result_errorMessage = None, result_responseTime = Some 20\<rparr>),
       (1, shopB, \<lparr>result_status = Online, result_errorMessage = None, result_responseTime = Some 30\<rparr>)]] \<and>
   getServers second_run_waiting = [shopA_20, shopB] \<and>
   \<not> changed shopA_20 \<lparr>result_status = Online, result_errorMessage = None, result_responseTime = Some 20\<rparr> \<and>
   \<not> changed shopB \<lparr>result_status = Online, result_errorMessage = None, result_responseTime = Some 30\<rparr> \<and>
   writes second_run_waiting = 1 \<and>
   writes (probesSettle 0 midnight second_run_waiting) = 2 \<and>
   events (probesSettle 0 midnight second_run_waiting) =
     events second_run_waiting @
       [SetItem [shopA_20, shopB], Callback 1 [shopA_20, shopB], Callback 1 [shopA_20, shopB]]"
  by (simp only: second_run_resumes)
     (simp add: second_run_waiting_eq probeAll_a_slower changed_examples getServers_def writes_def)

theorem monitor_idempotence_witness:
  "\<not> changed shopA \<lparr>result_status = Online, result_errorMessage = None, result_responseTime = Some 12\<rparr> \<and>
   \<not> changed shopB \<lparr>result_status = Online, result_errorMessage = None, result_responseTime = Some 30\<rparr> \<and>
   recordResult midnight (watched, False)
     (0, shopA, \<lparr>result_status = Online, result_errorMessage = None, result_responseTime = Some 12\<rparr>)
     = (watched, False) \<and>
   probeAll answers_as_stored (getServers watched) =
     [(0, shopA, \<lparr>result_status = Online, result_errorMessage = None, result_responseTime = Some 12\<rparr>),
      (1, shopB, \<lparr>result_status = Online, result_errorMessage = None, result_responseTime = Some 30\<rparr>)] \<and>
   checkAllServersStatus_resumed midnight (probeAll answers_as_stored (getServers watched)) watched = watched \<and>
   writes (checkAllServersStatus_resumed midnight (probeAll answers_as_stored (getServers watched)) watched) = 0 \<and>
   probesSettle (length (inflight watched)) midnight (checkAllServersStatus answers_as_stored watched) = watched \<and>
   changed shopA \<lparr>result_status = Online, result_errorMessage = None, result_responseTime = Some 20\<rparr> \<and>
   checkAllServersStatus_resumed midnight (probeAll a_slower [shopA, shopB]) watched \<noteq> watched"
proof -
  have stored: "\<forall>i < length (getServers watched).
      \<not> changed (getServers watched ! i) (checkServerStatus (answers_as_stored i) (getServers watched ! i))"
    using probeAll_watched
    by (simp add: probeAll_def getServers_watched upt_2 changed_examples less_Suc_eq numeral_2_eq_2)
  have moved: "checkAllServersStatus_resumed midnight (probeAll a_slower [shopA, shopB]) watched \<noteq> watched"
  proof
    assume "checkAllServersStatus_resumed midnight (probeAll a_slower [shopA, shopB]) watched = watched"
    then have "events (checkAllServersStatus_resumed midnight (probeAll a_slower [shopA, shopB]) watched)
        = events watched"
      by simp
    then show False
      by (simp add: resumed_with_a_slower [of watched shopA] getServers_watched server_id_shopA
          spread_shopA)
  qed
  note inst = monitor_idempotence [of shopA
      "\<lparr>result_status = Online, result_errorMessage = None, result_responseTime = Some 12\<rparr>"
      midnight watched False 0 "probeAll answers_as_stored (getServers watched)" answers_as_stored]
  have all_same: "\<forall>(i, server, result) \<in> set (probeAll answers_as_stored (getServers watched)).
      \<not> changed server result"
    by (simp add: probeAll_watched changed_examples)
  from inst changed_examples(1) have w1: "recordResult midnight (watched, False)
     (0, shopA, \<lparr>result_status = Online, result_errorMessage = None, result_responseTime = Some 12\<rparr>)
     = (watched, False)"
    by blast
  from inst all_same have w2:
    "checkAllServersStatus_resumed midnight (probeAll answers_as_stored (getServers watched)) watched = watched"
    by blast
  have w3: "writes (checkAllServersStatus_resumed midnight
      (probeAll answers_as_stored (getServers watched)) watched) = 0"
    unfolding w2 by (simp add: writes_def watched_def initial_def)
  from inst stored have w4:
    "probesSettle (length (inflight watched)) midnight (checkAllServersStatus answers_as_stored watched) = watched"
    by blast
  from changed_examples(1,2) w1 probeAll_watched w2 w3 w4 changed_examples(3) moved show ?thesis
    by (simp only: simp_thms)
qed

subsection \<open>Observers of the registry\<close>

lemma findIndex_found: "x \<in> set xs \<Longrightarrow> P x \<Longrightarrow> \<exists>i. findIndex P xs = Some i"
  by (induction xs) auto

lemma announced_write:
  "announced st (notifyMonitorCallbacks (setItem servers st))"
  by (simp add: announced_def notifyMonitorCallbacks_def setItem_def getServers_def Let_def)

lemma getServers_write:
  "getServers (notifyMonitorCallbacks (setItem servers st)) = servers"
  by (simp add: notifyMonitorCallbacks_def setItem_def getServers_def Let_def)

lemma absent_findIndex:
  "serverId \<notin> set (map server_id servers) \<Longrightarrow> findIndex (\<lambda>s. server_id s = serverId) servers = None"
  by (auto simp add: findIndex_None)

lemma absent_updateServer:
  "serverId \<notin> set (map server_id (getServers st)) \<Longrightarrow> updateServer serverId updates st = st"
  by (simp add: updateServer_def Let_def absent_findIndex)

lemma absent_toggleServerActive:
  "serverId \<notin> set (map server_id (getServers st)) \<Longrightarrow> toggleServerActive serverId st = st"
  by (simp add: toggleServerActive_def Let_def absent_findIndex)

text \<open>
  Claim C6, as amended. \<^verbatim>\<open>addServer\<close> and \<^verbatim>\<open>deleteServer\<close> always, and \<^verbatim>\<open>updateServer\<close>
  and \<^verbatim>\<open>toggleServerActive\<close> when a record with the given id exists, write the collection
  and then call every registered observer with the list as read back from storage. When no
  record has the given id, \<^verbatim>\<open>updateServer\<close> and \<^verbatim>\<open>toggleServerActive\<close> do nothing at all.
\<close>

theorem mutations_announced:
  "announced st (snd (addServer server uuid st)) \<and>
   getServers (snd (addServer server uuid st)) = getServers st @ [fst (addServer server uuid st)] \<and>
   announced st (deleteServer serverId st) \<and>
   getServers (deleteServer serverId st) = filter (\<lambda>s. server_id s \<noteq> serverId) (getServers st) \<and>
   (serverId \<in> set (map server_id (getServers st)) \<longrightarrow>
      announced st (updateServer serverId updates st) \<and>
      announced st (toggleServerActive serverId st)) \<and>
   (serverId \<notin> set (map server_id (getServers st)) \<longrightarrow>
      updateServer serverId updates st = st \<and> toggleServerActive serverId st = st)"
proof -
  have found: "\<exists>i. findIndex (\<lambda>s. server_id s = serverId) (getServers st) = Some i"
    if "serverId \<in> set (map server_id (getServers st))"
    using that findIndex_found [of _ "getServers st" "\<lambda>s. server_id s = serverId"] by auto
  have upd: "announced st (updateServer serverId updates st)"
    if "serverId \<in> set (map server_id (getServers st))"
    using found [OF that] by (auto simp add: updateServer_def Let_def announced_write)
  have tog: "announced st (toggleServerActive serverId st)"
    if "serverId \<in> set (map server_id (getServers st))"
    using found [OF that] by (auto simp add: toggleServerActive_def Let_def announced_write)
  show ?thesis
    using upd tog
    by (simp add: addServer_def deleteServer_def Let_def announced_write getServers_write
        absent_updateServer absent_toggleServerActive)
qed

theorem mutations_announced_witness:
  "''a'' \<in> set (map server_id (getServers watched)) \<and>
   announced watched (updateServer ''a'' (no_updates\<lparr>upd_name := Some ''Other''\<rparr>) watched) \<and>
   announced watched (toggleServerActive ''a'' watched) \<and>
   ''c'' \<notin> set (map server_id (getServers watched)) \<and>
   updateServer ''c'' (no_updates\<lparr>upd_name := Some ''Other''\<rparr>) watched = watched \<and>
   toggleServerActive ''c'' watched = watched"
  using mutations_announced [of watched _ _ "''a''" "no_updates\<lparr>upd_name := Some ''Other''\<rparr>"]
    mutations_announced [of watched _ _ "''c''" "no_updates\<lparr>upd_name := Some ''Other''\<rparr>"]
  by (simp add: getServers_watched shopA_def shopB_def)

text \<open>
  Claim C6 as stated fails: with an observer registered, \<^verbatim>\<open>updateServer\<close> and
  \<^verbatim>\<open>toggleServerActive\<close> on an id that the registry does not hold call nobody.
\<close>

theorem update_of_unknown_id_silent:
  "monitorCallbacks watched = [1] \<and>
   events (updateServer ''c'' (no_updates\<lparr>upd_name := Some ''Other''\<rparr>) watched) = [] \<and>
   events (toggleServerActive ''c'' watched) = []"
  by (simp add: absent_updateServer absent_toggleServerActive getServers_watched shopA_def shopB_def)
     (simp add: watched_def initial_def)




subsection \<open>Monitoring interval\<close>

lemma monitor_part_setItem: "monitor_part (setItem servers st) = monitor_part st"
  by (simp add: monitor_part_def setItem_def)

lemma monitor_part_notify: "monitor_part (notifyMonitorCallbacks st) = monitor_part st"
  by (simp add: monitor_part_def notifyMonitorCallbacks_def Let_def)

lemma monitor_part_addServer: "monitor_part (snd (addServer server uuid st)) = monitor_part st"
  by (simp add: addServer_def Let_def monitor_part_notify monitor_part_setItem)

lemma monitor_part_updateServer: "monitor_part (updateServer serverId updates st) = monitor_part st"
  by (simp add: updateServer_def Let_def monitor_part_notify monitor_part_setItem split: option.splits)

lemma monitor_part_deleteServer: "monitor_part (deleteServer serverId st) = monitor_part st"
  by (simp add: deleteServer_def Let_def monitor_part_notify monitor_part_setItem)

lemma monitor_part_toggleServerActive: "monitor_part (toggleServerActive serverId st) = monitor_part st"
  by (simp add: toggleServerActive_def Let_def monitor_part_notify monitor_part_setItem split: option.splits)

lemma monitor_part_recordResult:
  "monitor_part (fst (recordResult now (st, hasChanges) item)) = monitor_part st"
  by (cases item) (simp add: recordResult_def monitor_part_updateServer)

lemma monitor_part_foldl:
  "monitor_part (fst (foldl (recordResult now) (st, hasChanges) items)) = monitor_part st"
proof (induction items arbitrary: st hasChanges)
  case Nil
  then show ?case by simp
next
  case (Cons item items)
  obtain st' hc' where step: "recordResult now (st, hasChanges) item = (st', hc')"
    by (cases "recordResult now (st, hasChanges) item") auto
  with monitor_part_recordResult [of now st hasChanges item] have "monitor_part st' = monitor_part st"
    by simp
  with Cons.IH [of st' hc'] step show ?case by simp
qed

lemma monitor_part_checkAll: "monitor_part (checkAllServersStatus net st) = monitor_part st"
  by (simp add: checkAllServersStatus_def Let_def monitor_part_def)

lemma monitor_part_resumed: "monitor_part (checkAllServersStatus_resumed now results st) = monitor_part st"
  using monitor_part_foldl [of now st False results]
  by (auto simp add: checkAllServersStatus_resumed_def monitor_part_notify split: prod.splits)

lemma monitor_part_probesSettle: "monitor_part (probesSettle k now st) = monitor_part st"
  by (simp add: probesSettle_def monitor_part_resumed) (simp add: monitor_part_def)

lemma monitor_part_intervalFires: "monitor_part (intervalFires handle net st) = monitor_part st"
  by (simp add: intervalFires_def monitor_part_checkAll split: option.splits)

lemma monitor_inv_cong: "monitor_part st' = monitor_part st \<Longrightarrow> monitor_inv st' = monitor_inv st"
  by (auto simp add: monitor_part_def monitor_inv_def split: option.splits)

lemma monitor_inv_startMonitoring: "monitor_inv st \<Longrightarrow> monitor_inv (startMonitoring callback net st)"
proof -
  assume inv: "monitor_inv st"
  let ?st1 = "case callback of None \<Rightarrow> st | Some cb \<Rightarrow> st\<lparr>monitorCallbacks := monitorCallbacks st @ [cb]\<rparr>"
  have part1: "monitoringInterval ?st1 = monitoringInterval st" "timers ?st1 = timers st"
    by (simp_all split: option.splits)
  show ?thesis
  proof (cases "monitoringInterval st")
    case None
    with inv have empty: "timers st = Map.empty" by (simp add: monitor_inv_def)
    from monitor_part_checkAll [of net ?st1] part1 None empty
    have "timers (checkAllServersStatus net ?st1) = Map.empty"
      by (simp add: monitor_part_def)
    with None part1 show ?thesis
      by (simp add: startMonitoring_def Let_def setInterval_def monitor_inv_def)
  next
    case (Some handle)
    with inv part1 show ?thesis
      by (simp add: startMonitoring_def Let_def monitor_inv_def split: option.splits)
  qed
qed

lemma monitor_inv_stopMonitoring: "monitor_inv st \<Longrightarrow> monitor_inv (stopMonitoring callback st)"
  by (cases callback)
     (auto simp add: stopMonitoring_def Let_def monitor_inv_def clearInterval_def split: option.splits)

lemma monitor_inv_perform: "monitor_inv st \<Longrightarrow> monitor_inv (perform st a)"
  by (cases a)
     (simp_all add: monitor_inv_startMonitoring monitor_inv_stopMonitoring
        monitor_inv_cong [OF monitor_part_addServer] monitor_inv_cong [OF monitor_part_updateServer]
        monitor_inv_cong [OF monitor_part_deleteServer] monitor_inv_cong [OF monitor_part_toggleServerActive]
        monitor_inv_cong [OF monitor_part_checkAll] monitor_inv_cong [OF monitor_part_intervalFires]
        monitor_inv_cong [OF monitor_part_probesSettle])

lemma monitor_inv_run: "monitor_inv st \<Longrightarrow> monitor_inv (run actions st)"
  unfolding run_def by (induction actions arbitrary: st) (simp_all add: monitor_inv_perform)

lemma monitor_inv_initial: "monitor_inv (initial stored)"
  by (simp add: monitor_inv_def initial_def)

text \<open>No timer and no handle: the state in which the browser has nothing to fire.\<close>

lemma stopped_perform:
  "\<not> isStartMonitoring a \<Longrightarrow> monitoringInterval st = None \<and> timers st = Map.empty \<Longrightarrow>
     monitoringInterval (perform st a) = None \<and> timers (perform st a) = Map.empty"
proof (cases a)
  case (AddServer server uuid)
  with monitor_part_addServer [of server uuid st] show ?thesis
    if "monitoringInterval st = None \<and> timers st = Map.empty"
    using that by (simp add: monitor_part_def)
next
  case (UpdateServer serverId updates)
  with monitor_part_updateServer [of serverId updates st] show ?thesis
    if "monitoringInterval st = None \<and> timers st = Map.empty"
    using that by (simp add: monitor_part_def)
next
  case (DeleteServer serverId)
  with monitor_part_deleteServer [of serverId st] show ?thesis
    if "monitoringInterval st = None \<and> timers st = Map.empty"
    using that by (simp add: monitor_part_def)
next
  case (ToggleServerActive serverId)
  with monitor_part_toggleServerActive [of serverId st] show ?thesis
    if "monitoringInterval st = None \<and> timers st = Map.empty"
    using that by (simp add: monitor_part_def)
next
  case (CheckAllServersStatus net)
  with monitor_part_checkAll [of net st] show ?thesis
    if "monitoringInterval st = None \<and> timers st = Map.empty"
    using that by (simp add: monitor_part_def)
next
  case (ProbesSettle k now)
  with monitor_part_probesSettle [of k now st] show ?thesis
    if "monitoringInterval st = None \<and> timers st = Map.empty"
    using that by (simp add: monitor_part_def)
next
  case (StartMonitoring callback net)
  then show ?thesis if "\<not> isStartMonitoring a" using that by simp
next
  case (StopMonitoring callback)
  then show ?thesis
    if "monitoringInterval st = None \<and> timers st = Map.empty"
    using that by (cases callback) (simp_all add: stopMonitoring_def Let_def)
next
  case (IntervalFires handle net)
  then show ?thesis
    if "monitoringInterval st = None \<and> timers st = Map.empty"
    using that by (simp add: intervalFires_def)
qed


lemma stopped_run:
  "\<forall>a \<in> set later. \<not> isStartMonitoring a \<Longrightarrow>
     monitoringInterval st = None \<and> timers st = Map.empty \<Longrightarrow>
     monitoringInterval (run later st) = None \<and> timers (run later st) = Map.empty"
  unfolding run_def
proof (induction later arbitrary: st)
  case Nil
  then show ?case by simp
next
  case (Cons a later)
  from Cons.prems have "monitoringInterval (perform st a) = None \<and> timers (perform st a) = Map.empty"
    using stopped_perform [of a st] by simp
  with Cons.IH [of "perform st a"] Cons.prems show ?case by simp
qed

lemma stop_last:
  "monitor_inv st \<Longrightarrow> monitorCallbacks (stopMonitoring callback st) = [] \<Longrightarrow>
     monitoringInterval (stopMonitoring callback st) = None \<and>
     timers (stopMonitoring callback st) = Map.empty"
  by (cases callback)
     (auto simp add: stopMonitoring_def Let_def monitor_inv_def clearInterval_def
        split: option.splits if_splits)

lemma fires_while_running:
  "running st \<Longrightarrow> monitoringInterval st = Some handle \<Longrightarrow>
     intervalFires handle net st = checkAllServersStatus net st"
  by (simp add: running_def intervalFires_def)

lemma callbacks_startMonitoring:
  "monitorCallbacks (startMonitoring (Some cb) net st) = monitorCallbacks st @ [cb]"
  using monitor_part_checkAll [of net "st\<lparr>monitorCallbacks := monitorCallbacks st @ [cb]\<rparr>"]
  by (simp add: startMonitoring_def Let_def setInterval_def monitor_part_def)

lemma callbacks_stopMonitoring:
  "monitorCallbacks (stopMonitoring (Some cb) st) = filter (\<lambda>c. c \<noteq> cb) (monitorCallbacks st)"
  by (simp add: stopMonitoring_def Let_def clearInterval_def split: option.splits)

lemma start_when_idle:
  "monitoringInterval st = None \<Longrightarrow>
     running (startMonitoring callback net st) \<and>
     inflight (startMonitoring callback net st) = inflight st @ [probeAll net (getServers st)]"
  by (cases callback)
     (simp_all add: startMonitoring_def Let_def setInterval_def running_def checkAllServersStatus_def
        getServers_def)

text \<open>
  Claim C8. In every state that the service reaches from page load, by any calls of its
  operations, any firing of the timer and any settling of probes: if a subscriber is
  registered, the interval is running, that is, the class holds a handle and the browser
  has it registered with a period of 5000 milliseconds; no timer with another period or
  another handle exists. While the interval is running, each firing of its handle is a call
  of \<^verbatim>\<open>checkAllServersStatus\<close>: it reads the list and probes every store, and when those
  probes settle the results are handled. Once a call of \<^verbatim>\<open>stopMonitoring\<close> leaves no
  subscriber, the interval is not running and stays so through anything that happens later
  other than a call of \<^verbatim>\<open>startMonitoring\<close>, and a firing of any handle does nothing.
  \<^verbatim>\<open>startMonitoring\<close> with a callback registers it, \<^verbatim>\<open>stopMonitoring\<close> with a callback
  removes it, and \<^verbatim>\<open>startMonitoring\<close> on a service whose interval is not running starts
  it, together with a first check.
\<close>

theorem monitoring_interval:
  "(monitorCallbacks (run actions (initial stored)) \<noteq> [] \<longrightarrow>
      running (run actions (initial stored))) \<and>
   (timers (run actions (initial stored)) handle = Some period \<longrightarrow>
      period = 5000 \<and> monitoringInterval (run actions (initial stored)) = Some handle) \<and>
   (running (run actions (initial stored)) \<and>
    monitoringInterval (run actions (initial stored)) = Some handle \<longrightarrow>
      intervalFires handle net (run actions (initial stored))
        = checkAllServersStatus net (run actions (initial stored)) \<and>
      inflight (intervalFires handle net (run actions (initial stored)))
        = inflight (run actions (initial stored)) @
            [probeAll net (getServers (run actions (initial stored)))] \<and>
      probesSettle (length (inflight (run actions (initial stored)))) now
          (intervalFires handle net (run actions (initial stored)))
        = checkAllServersStatus_resumed now (probeAll net (getServers (run actions (initial stored))))
            (run actions (initial stored))) \<and>
   (monitorCallbacks (stopMonitoring callback (run actions (initial stored))) = [] \<and>
    (\<forall>a \<in> set later. \<not> isStartMonitoring a) \<longrightarrow>
      \<not> running (run later (stopMonitoring callback (run actions (initial stored)))) \<and>
      intervalFires handle net (run later (stopMonitoring callback (run actions (initial stored))))
        = run later (stopMonitoring callback (run actions (initial stored)))) \<and>
   monitorCallbacks (startMonitoring (Some cb) net (run actions (initial stored)))
     = monitorCallbacks (run actions (initial stored)) @ [cb] \<and>
   monitorCallbacks (stopMonitoring (Some cb) (run actions (initial stored)))
     = filter (\<lambda>c. c \<noteq> cb) (monitorCallbacks (run actions (initial stored))) \<and>
   (\<not> running (run actions (initial stored)) \<longrightarrow>
      running (startMonitoring callback net (run actions (initial stored))) \<and>
      inflight (startMonitoring callback net (run actions (initial stored)))
        = inflight (run actions (initial stored)) @
            [probeAll net (getServers (run actions (initial stored)))])"
proof -
  let ?st = "run actions (initial stored)"
  have inv: "monitor_inv ?st"
    by (simp add: monitor_inv_run monitor_inv_initial)
  have one: "running ?st" if "monitorCallbacks ?st \<noteq> []"
    using inv that by (auto simp add: monitor_inv_def running_def split: option.splits)
  have two: "period = 5000 \<and> monitoringInterval ?st = Some handle"
    if "timers ?st handle = Some period"
    using inv that by (auto simp add: monitor_inv_def split: option.splits if_splits)
  have tick: "intervalFires handle net ?st = checkAllServersStatus net ?st \<and>
      inflight (intervalFires handle net ?st) = inflight ?st @ [probeAll net (getServers ?st)] \<and>
      probesSettle (length (inflight ?st)) now (intervalFires handle net ?st)
        = checkAllServersStatus_resumed now (probeAll net (getServers ?st)) ?st"
    if "running ?st \<and> monitoringInterval ?st = Some handle"
  proof -
    from that have fires: "intervalFires handle net ?st = checkAllServersStatus net ?st"
      by (simp add: fires_while_running)
    then show ?thesis
      by (simp add: settle_last) (simp add: checkAllServersStatus_def Let_def)
  qed
  have three: "\<not> running (run later (stopMonitoring callback ?st)) \<and>
      intervalFires handle net (run later (stopMonitoring callback ?st))
        = run later (stopMonitoring callback ?st)"
    if last: "monitorCallbacks (stopMonitoring callback ?st) = []"
      and later: "\<forall>a \<in> set later. \<not> isStartMonitoring a"
  proof -
    from stop_last [OF inv last] stopped_run [OF later]
    have "monitoringInterval (run later (stopMonitoring callback ?st)) = None \<and>
        timers (run later (stopMonitoring callback ?st)) = Map.empty"
      by simp
    then show ?thesis by (simp add: running_def intervalFires_def)
  qed
  have idle: "running (startMonitoring callback net ?st) \<and>
      inflight (startMonitoring callback net ?st) = inflight ?st @ [probeAll net (getServers ?st)]"
    if "\<not> running ?st"
  proof -
    from inv that have "monitoringInterval ?st = None"
      by (auto simp add: monitor_inv_def running_def split: option.splits)
    then show ?thesis by (rule start_when_idle)
  qed
  from one two tick three idle callbacks_startMonitoring [of cb net ?st]
    callbacks_stopMonitoring [of cb ?st]
  show ?thesis by blast
qed

lemma started:
  "monitor_part (startMonitoring (Some cb) net (initial stored))
     = (Some 1, [cb], [1 \<mapsto> 5000], 2)"
  using monitor_part_checkAll [of net "(initial stored)\<lparr>monitorCallbacks := [cb]\<rparr>"]
  by (simp add: startMonitoring_def Let_def setInterval_def initial_def monitor_part_def)

lemma started_then_stopped:
  "monitor_part (stopMonitoring (Some cb) (startMonitoring (Some cb) net (initial stored)))
     = (None, [], Map.empty, 2)"
  using started [of cb net stored]
  by (simp add: stopMonitoring_def Let_def clearInterval_def monitor_part_def)

theorem monitoring_interval_witness:
  "monitorCallbacks (run [StartMonitoring (Some 1) answers_as_stored] (initial (Some [shopA, shopB]))) \<noteq> [] \<and>
   running (run [StartMonitoring (Some 1) answers_as_stored] (initial (Some [shopA, shopB]))) \<and>
   timers (run [StartMonitoring (Some 1) answers_as_stored] (initial (Some [shopA, shopB]))) 1 = Some 5000 \<and>
   monitoringInterval (run [StartMonitoring (Some 1) answers_as_stored] (initial (Some [shopA, shopB]))) = Some 1 \<and>
   intervalFires 1 a_slower (run [StartMonitoring (Some 1) answers_as_stored] (initial (Some [shopA, shopB])))
     = checkAllServersStatus a_slower
         (run [StartMonitoring (Some 1) answers_as_stored] (initial (Some [shopA, shopB]))) \<and>
   monitorCallbacks (stopMonitoring (Some 1)
     (run [StartMonitoring (Some 1) answers_as_stored] (initial (Some [shopA, shopB])))) = [] \<and>
   \<not> isStartMonitoring (DeleteServer ''a'') \<and>
   \<not> running (run [DeleteServer ''a''] (stopMonitoring (Some 1)
     (run [StartMonitoring (Some 1) answers_as_stored] (initial (Some [shopA, shopB]))))) \<and>
   intervalFires 1 a_slower (run [DeleteServer ''a''] (stopMonitoring (Some 1)
     (run [StartMonitoring (Some 1) answers_as_stored] (initial (Some [shopA, shopB])))))
     = run [DeleteServer ''a''] (stopMonitoring (Some 1)
     (run [StartMonitoring (Some 1) answers_as_stored] (initial (Some [shopA, shopB])))) \<and>
   \<not> running (run [] (initial (Some [shopA, shopB]))) \<and>
   running (startMonitoring (Some 1) answers_as_stored (run [] (initial (Some [shopA, shopB]))))"
proof -
  note on = monitoring_interval [where actions = "[StartMonitoring (Some 1) answers_as_stored]"
      and stored = "Some [shopA, shopB]" and handle = 1 and period = 5000 and callback = "Some 1"
      and later = "[DeleteServer ''a'']" and net = a_slower]
  note off = monitoring_interval [where actions = "[]"
      and stored = "Some [shopA, shopB]" and callback = "Some 1" and net = answers_as_stored]
  have idle: "\<not> running (run [] (initial (Some [shopA, shopB])))"
    by (simp add: run_def running_def initial_def)
  from off idle have w: "running (startMonitoring (Some 1) answers_as_stored (run [] (initial (Some [shopA, shopB]))))"
    by blast
  show ?thesis
    using on started [of 1 answers_as_stored "Some [shopA, shopB]"]
      started_then_stopped [of 1 answers_as_stored "Some [shopA, shopB]"] idle w
    by (simp add: run_def monitor_part_def running_def)
qed

subsection \<open>Deduplication\<close>

lemma merge_distinct:
  "distinct (map key prev) \<Longrightarrow> distinct (map key batch) \<Longrightarrow>
     distinct (map key (prev @ filter (\<lambda>n. \<not> list_ex (\<lambda>e. key e = key n) prev) batch))"
proof -
  assume prev: "distinct (map key prev)" and batch: "distinct (map key batch)"
  let ?new = "filter (\<lambda>n. \<not> list_ex (\<lambda>e. key e = key n) prev) batch"
  have new: "distinct (map key ?new)"
    using batch by (rule distinct_map_filter)
  have disj: "key n \<notin> key ` set prev" if "n \<in> set ?new" for n
  proof
    assume "key n \<in> key ` set prev"
    then obtain e where "e \<in> set prev" and "key e = key n"
      by (metis imageE)
    then have "list_ex (\<lambda>e. key e = key n) prev"
      unfolding list_ex_iff by blast
    with that show False
      by simp
  qed
  have "key ` set prev \<inter> key ` set ?new = {}"
  proof (rule ccontr)
    assume "key ` set prev \<inter> key ` set ?new \<noteq> {}"
    then obtain k where "k \<in> key ` set prev" and "k \<in> key ` set ?new"
      by blast
    then obtain n where "n \<in> set ?new" and "k = key n"
      by blast
    with disj [of n] \<open>k \<in> key ` set prev\<close> show False
      by simp
  qed
  then have "set (map key prev) \<inter> set (map key ?new) = {}"
    by (simp only: set_map)
  with prev new show ?thesis
    by (simp only: map_append distinct_append simp_thms)
qed

lemma merge_known:
  "k \<in> key ` set prev \<Longrightarrow>
     filter (\<lambda>e. key e = k) (prev @ filter (\<lambda>n. \<not> list_ex (\<lambda>e. key e = key n) prev) batch)
       = filter (\<lambda>e. key e = k) prev"
  by (auto simp add: filter_empty_conv list_ex_iff)

lemma sameOrder_key: "sameOrder existingOrder newOrder = (order_key existingOrder = order_key newOrder)"
  by (auto simp add: sameOrder_def order_key_def)

lemma sameProduct_key: "sameProduct existingProduct newProduct = (product_key existingProduct = product_key newProduct)"
  by (auto simp add: sameProduct_def product_key_def)

lemma orders_fetchOrders:
  "orders (fetchOrders servers selectedServers net view) =
     orders view @ filter (\<lambda>n. \<not> list_ex (\<lambda>e. order_key e = order_key n) (orders view))
       (allOrders servers selectedServers net)"
  by (simp add: fetchOrders_def Let_def sameOrder_key)

lemma products_fetchProducts:
  "products (fetchProducts servers selectedServers net view) =
     products view @ filter (\<lambda>n. \<not> list_ex (\<lambda>e. product_key e = product_key n) (products view))
       (allProducts servers selectedServers net)"
  by (simp add: fetchProducts_def Let_def sameProduct_key)

lemma distinct_concat_map:
  "distinct ixs \<Longrightarrow> (\<And>i. i \<in> set ixs \<Longrightarrow> distinct (f i)) \<Longrightarrow>
     (\<And>i j. i \<in> set ixs \<Longrightarrow> j \<in> set ixs \<Longrightarrow> i \<noteq> j \<Longrightarrow> set (f i) \<inter> set (f j) = {}) \<Longrightarrow>
     distinct (concat (map f ixs))"
proof (induction ixs)
  case Nil
  then show ?case by simp
next
  case (Cons i ixs)
  have "distinct (concat (map f ixs))"
    using Cons by auto
  moreover have "distinct (f i)"
    using Cons.prems by simp
  moreover have "set (f i) \<inter> set (f j) = {}" if "j \<in> set ixs" for j
    using Cons.prems(1) Cons.prems(3) [of i j] that by auto
  ultimately show ?case by auto
qed

lemma find_server_id: "find (\<lambda>s. server_id s = serverId) servers = Some server \<Longrightarrow> server_id server = serverId"
  by (auto simp add: find_Some_iff)

lemma productPromise_keys:
  "map product_key (productPromise servers response serverId)
     = (case find (\<lambda>s. server_id s = serverId) servers of
          None \<Rightarrow> []
        | Some server \<Rightarrow>
            (case response of Inl err \<Rightarrow> [] | Inr data \<Rightarrow> map (\<lambda>p. (Some serverId, product_id p)) data))"
proof (cases "find (\<lambda>s. server_id s = serverId) servers")
  case None
  then show ?thesis by (simp add: productPromise_def)
next
  case (Some server)
  then have "server_id server = serverId" by (rule find_server_id)
  with Some show ?thesis
    by (cases response) (simp_all add: productPromise_def product_key_def comp_def)
qed

lemma withNotes_keys:
  "withNotes server ordersData = Some ordersWithNotes \<Longrightarrow>
     map order_key ordersWithNotes = map (\<lambda>item. (Some (server_id server), order_id (fst item))) ordersData"
  by (induction server ordersData arbitrary: ordersWithNotes rule: withNotes.induct)
     (auto simp add: order_key_def split: option.splits)

lemma orderPromise_keys:
  "map order_key (orderPromise servers response serverId)
     = (case find (\<lambda>s. server_id s = serverId) servers of
          None \<Rightarrow> []
        | Some server \<Rightarrow>
            (case response of
               Inl err \<Rightarrow> []
             | Inr ordersData \<Rightarrow>
                 (case withNotes server ordersData of
                    None \<Rightarrow> []
                  | Some ordersWithNotes \<Rightarrow>
                      map (\<lambda>item. (Some serverId, order_id (fst item))) ordersData)))"
proof (cases "find (\<lambda>s. server_id s = serverId) servers")
  case None
  then show ?thesis by (simp add: orderPromise_def)
next
  case (Some server)
  then have sid: "server_id server = serverId" by (rule find_server_id)
  show ?thesis
  proof (cases response)
    case (Inl err)
    with Some show ?thesis by (simp add: orderPromise_def)
  next
    case (Inr ordersData)
    show ?thesis
    proof (cases "withNotes server ordersData")
      case None
      with Some Inr show ?thesis by (simp add: orderPromise_def)
    next
      case (Some ordersWithNotes)
      from withNotes_keys [OF Some] sid
      have "map order_key ordersWithNotes = map (\<lambda>item. (Some serverId, order_id (fst item))) ordersData"
        by simp
      with \<open>find (\<lambda>s. server_id s = serverId) servers = Some server\<close> Inr Some show ?thesis
        by (simp add: orderPromise_def)
    qed
  qed
qed



lemma productPromise_keys_fst:
  "k \<in> set (map product_key (productPromise servers response serverId)) \<Longrightarrow> fst k = Some serverId"
  unfolding productPromise_keys by (auto split: option.splits sum.splits)

lemma orderPromise_keys_fst:
  "k \<in> set (map order_key (orderPromise servers response serverId)) \<Longrightarrow> fst k = Some serverId"
  unfolding orderPromise_keys by (auto split: option.splits sum.splits)

lemma distinct_pair_map:
  "distinct (map g xs) \<Longrightarrow> distinct (map (\<lambda>x. (c, g x)) xs)"
  by (induction xs) auto

lemma productPromise_distinct:
  "(\<And>data. response = Inr data \<Longrightarrow> distinct (map product_id data)) \<Longrightarrow>
     distinct (map product_key (productPromise servers response serverId))"
  unfolding productPromise_keys
  by (auto simp add: distinct_pair_map split: option.splits sum.splits)

lemma orderPromise_distinct:
  "(\<And>ordersData. response = Inr ordersData \<Longrightarrow> distinct (map (\<lambda>item. order_id (fst item)) ordersData)) \<Longrightarrow>
     distinct (map order_key (orderPromise servers response serverId))"
  unfolding orderPromise_keys
  by (auto simp add: distinct_pair_map [of "\<lambda>item. order_id (fst item)"] split: option.splits sum.splits)

lemma allProducts_distinct:
  assumes sel: "distinct selectedServers"
    and pages: "\<And>index data. index < length selectedServers \<Longrightarrow> net index = Inr data \<Longrightarrow>
      distinct (map product_id data)"
  shows "distinct (map product_key (allProducts servers selectedServers net))"
proof -
  let ?f = "\<lambda>index. map product_key (productPromise servers (net index) (selectedServers ! index))"
  have "map product_key (allProducts servers selectedServers net)
      = concat (map ?f [0..<length selectedServers])"
    by (simp add: allProducts_def map_concat comp_def)
  moreover have "distinct (concat (map ?f [0..<length selectedServers]))"
  proof (rule distinct_concat_map)
    show "distinct [0..<length selectedServers]" by simp
  next
    fix i assume "i \<in> set [0..<length selectedServers]"
    then have "i < length selectedServers" by simp
    then show "distinct (?f i)"
      using pages [of i] by (intro productPromise_distinct) simp
  next
    fix i j
    assume "i \<in> set [0..<length selectedServers]" "j \<in> set [0..<length selectedServers]" "i \<noteq> j"
    then have ne: "selectedServers ! i \<noteq> selectedServers ! j"
      using sel by (simp add: nth_eq_iff_index_eq)
    show "set (?f i) \<inter> set (?f j) = {}"
    proof (rule ccontr)
      assume "set (?f i) \<inter> set (?f j) \<noteq> {}"
      then obtain k where "k \<in> set (?f i)" and "k \<in> set (?f j)" by blast
      then have "fst k = Some (selectedServers ! i)" and "fst k = Some (selectedServers ! j)"
        by (blast dest: productPromise_keys_fst)+
      with ne show False by simp
    qed
  qed
  ultimately show ?thesis by simp
qed

lemma allOrders_distinct:
  assumes sel: "distinct selectedServers"
    and pages: "\<And>index ordersData. index < length selectedServers \<Longrightarrow> net index = Inr ordersData \<Longrightarrow>
      distinct (map (\<lambda>item. order_id (fst item)) ordersData)"
  shows "distinct (map order_key (allOrders servers selectedServers net))"
proof -
  let ?f = "\<lambda>index. map order_key (orderPromise servers (net index) (selectedServers ! index))"
  have "map order_key (allOrders servers selectedServers net)
      = concat (map ?f [0..<length selectedServers])"
    by (simp add: allOrders_def map_concat comp_def)
  moreover have "distinct (concat (map ?f [0..<length selectedServers]))"
  proof (rule distinct_concat_map)
    show "distinct [0..<length selectedServers]" by simp
  next
    fix i assume "i \<in> set [0..<length selectedServers]"
    then have "i < length selectedServers" by simp
    then show "distinct (?f i)"
      using pages [of i] by (intro orderPromise_distinct) simp
  next
    fix i j
    assume "i \<in> set [0..<length selectedServers]" "j \<in> set [0..<length selectedServers]" "i \<noteq> j"
    then have ne: "selectedServers ! i \<noteq> selectedServers ! j"
      using sel by (simp add: nth_eq_iff_index_eq)
    show "set (?f i) \<inter> set (?f j) = {}"
    proof (rule ccontr)
      assume "set (?f i) \<inter> set (?f j) \<noteq> {}"
      then obtain k where "k \<in> set (?f i)" and "k \<in> set (?f j)" by blast
      then have "fst k = Some (selectedServers ! i)" and "fst k = Some (selectedServers ! j)"
        by (blast dest: orderPromise_keys_fst)+
      with ne show False by simp
    qed
  qed
  ultimately show ?thesis by simp
qed


text \<open>
  Claim C2, as amended. The fetch keeps the accumulated list and appends those entities
  of the batch whose (store id, entity id) pair does not occur in the accumulated list.
  So if no pair occurs twice in the accumulated list and none occurs twice in the batch,
  none occurs twice in the merged list; the batch is free of repeated pairs whenever the
  selected store ids are pairwise distinct and no store's page lists an entity id twice.
  For a pair that already occurs in the accumulated list, the merged list holds the very
  entities the accumulated list held for it: every copy in the batch is dropped.
\<close>

theorem merged_keys_distinct:
  "(distinct (map order_key (orders oview)) \<and>
    distinct (map order_key (allOrders servers selectedServers onet)) \<longrightarrow>
      distinct (map order_key (orders (fetchOrders servers selectedServers onet oview)))) \<and>
   (distinct (map product_key (products pview)) \<and>
    distinct (map product_key (allProducts servers selectedServers pnet)) \<longrightarrow>
      distinct (map product_key (products (fetchProducts servers selectedServers pnet pview)))) \<and>
   (distinct selectedServers \<and> orderPagesDistinct selectedServers onet \<longrightarrow>
      distinct (map order_key (allOrders servers selectedServers onet))) \<and>
   (distinct selectedServers \<and> productPagesDistinct selectedServers pnet \<longrightarrow>
      distinct (map product_key (allProducts servers selectedServers pnet))) \<and>
   (okey \<in> order_key ` set (orders oview) \<longrightarrow>
      filter (\<lambda>e. order_key e = okey) (orders (fetchOrders servers selectedServers onet oview))
        = filter (\<lambda>e. order_key e = okey) (orders oview)) \<and>
   (pkey \<in> product_key ` set (products pview) \<longrightarrow>
      filter (\<lambda>e. product_key e = pkey) (products (fetchProducts servers selectedServers pnet pview))
        = filter (\<lambda>e. product_key e = pkey) (products pview))"
proof (intro conjI impI)
  assume "distinct (map order_key (orders oview)) \<and>
    distinct (map order_key (allOrders servers selectedServers onet))"
  then show "distinct (map order_key (orders (fetchOrders servers selectedServers onet oview)))"
    unfolding orders_fetchOrders by (intro merge_distinct) simp_all
next
  assume "distinct (map product_key (products pview)) \<and>
    distinct (map product_key (allProducts servers selectedServers pnet))"
  then show "distinct (map product_key (products (fetchProducts servers selectedServers pnet pview)))"
    unfolding products_fetchProducts by (intro merge_distinct) simp_all
next
  assume a: "distinct selectedServers \<and> orderPagesDistinct selectedServers onet"
  show "distinct (map order_key (allOrders servers selectedServers onet))"
  proof (rule allOrders_distinct)
    show "distinct selectedServers" using a by simp
  next
    fix index ordersData
    assume "index < length selectedServers" and page: "onet index = Inr ordersData"
    then have "index \<in> set [0..<length selectedServers]" by simp
    with a have "case onet index of
        Inl err \<Rightarrow> True
      | Inr ordersData \<Rightarrow> distinct (map (\<lambda>item. order_id (fst item)) ordersData)"
      unfolding orderPagesDistinct_def list_all_iff by blast
    with page show "distinct (map (\<lambda>item. order_id (fst item)) ordersData)"
      by simp
  qed
next
  assume a: "distinct selectedServers \<and> productPagesDistinct selectedServers pnet"
  show "distinct (map product_key (allProducts servers selectedServers pnet))"
  proof (rule allProducts_distinct)
    show "distinct selectedServers" using a by simp
  next
    fix index data
    assume "index < length selectedServers" and page: "pnet index = Inr data"
    then have "index \<in> set [0..<length selectedServers]" by simp
    with a have "case pnet index of
        Inl err \<Rightarrow> True
      | Inr data \<Rightarrow> distinct (map product_id data)"
      unfolding productPagesDistinct_def list_all_iff by blast
    with page show "distinct (map product_id data)"
      by simp
  qed
next
  assume "okey \<in> order_key ` set (orders oview)"
  then show "filter (\<lambda>e. order_key e = okey) (orders (fetchOrders servers selectedServers onet oview))
        = filter (\<lambda>e. order_key e = okey) (orders oview)"
    unfolding orders_fetchOrders by (rule merge_known)
next
  assume "pkey \<in> product_key ` set (products pview)"
  then show "filter (\<lambda>e. product_key e = pkey) (products (fetchProducts servers selectedServers pnet pview))
        = filter (\<lambda>e. product_key e = pkey) (products pview)"
    unfolding products_fetchProducts by (rule merge_known)
qed


lemma upto_1_5: "[1..5] = [1, 2, 3, 4, 5::int]"
  by (simp add: upto.simps)

lemma allProducts_a_ok_b_fails:
  "allProducts [shopA, shopB] [''a'', ''b''] a_ok_b_fails = map shirt_of_a [1..5]"
  by (simp add: allProducts_def productPromise_def a_ok_b_fails_def shirt_of_a_def shopA_def shopB_def
      upt_2)

lemma allOrders_a_ok_b_notes_fail:
  "allOrders [shopA, shopB] [''a'', ''b''] a_ok_b_notes_fail = map parcel_of_a [1..5]"
  by (simp add: allOrders_def orderPromise_def a_ok_b_notes_fail_def parcel_of_a_def shopA_def
      shopB_def upt_2 withNotes_map_Inr)

lemma product_key_shirt_of_a: "product_key (shirt_of_a n) = (Some ''a'', n)"
  by (simp add: product_key_def shirt_of_a_def shirt_def)

lemma order_key_parcel_of_a: "order_key (parcel_of_a n) = (Some ''a'', n)"
  by (simp add: order_key_def parcel_of_a_def parcel_def)

theorem merged_keys_distinct_witness:
  "distinct (map order_key (orders five_parcels)) \<and>
   distinct (map order_key (allOrders [shopA, shopB] [''a'', ''b''] a_ok_b_notes_fail)) \<and>
   distinct (map order_key (orders (fetchOrders [shopA, shopB] [''a'', ''b''] a_ok_b_notes_fail five_parcels))) \<and>
   distinct (map product_key (products five_shirts)) \<and>
   distinct (map product_key (allProducts [shopA, shopB] [''a'', ''b''] a_ok_b_fails)) \<and>
   distinct (map product_key (products (fetchProducts [shopA, shopB] [''a'', ''b''] a_ok_b_fails five_shirts))) \<and>
   distinct [''a'', ''b''] \<and>
   orderPagesDistinct [''a'', ''b''] a_ok_b_notes_fail \<and>
   productPagesDistinct [''a'', ''b''] a_ok_b_fails \<and>
   (Some ''a'', 3) \<in> order_key ` set (orders five_parcels) \<and>
   filter (\<lambda>e. order_key e = (Some ''a'', 3))
       (orders (fetchOrders [shopA, shopB] [''a'', ''b''] a_ok_b_notes_fail five_parcels))
     = filter (\<lambda>e. order_key e = (Some ''a'', 3)) (orders five_parcels) \<and>
   (Some ''a'', 3) \<in> product_key ` set (products five_shirts) \<and>
   filter (\<lambda>e. product_key e = (Some ''a'', 3))
       (products (fetchProducts [shopA, shopB] [''a'', ''b''] a_ok_b_fails five_shirts))
     = filter (\<lambda>e. product_key e = (Some ''a'', 3)) (products five_shirts)"
proof -
  have ok: "map order_key (orders five_parcels) = map (\<lambda>n. (Some ''a'', n)) [1..5]"
    by (simp add: five_parcels_def order_key_parcel_of_a comp_def)
  have pk: "map product_key (products five_shirts) = map (\<lambda>n. (Some ''a'', n)) [1..5]"
    by (simp add: five_shirts_def product_key_shirt_of_a comp_def)
  have h1: "distinct (map order_key (orders five_parcels))"
    unfolding ok by (simp add: upto_1_5)
  have h2: "distinct (map order_key (allOrders [shopA, shopB] [''a'', ''b''] a_ok_b_notes_fail))"
    by (simp add: allOrders_a_ok_b_notes_fail order_key_parcel_of_a comp_def upto_1_5)
  have h3: "distinct (map product_key (products five_shirts))"
    unfolding pk by (simp add: upto_1_5)
  have h4: "distinct (map product_key (allProducts [shopA, shopB] [''a'', ''b''] a_ok_b_fails))"
    by (simp add: allProducts_a_ok_b_fails product_key_shirt_of_a comp_def upto_1_5)
  have h5: "orderPagesDistinct [''a'', ''b''] a_ok_b_notes_fail"
    by (simp add: orderPagesDistinct_def a_ok_b_notes_fail_def upt_2 comp_def parcel_def upto_1_5)
  have h6: "productPagesDistinct [''a'', ''b''] a_ok_b_fails"
    by (simp add: productPagesDistinct_def a_ok_b_fails_def upt_2 comp_def shirt_def upto_1_5)
  have h7: "(Some ''a'', 3) \<in> order_key ` set (orders five_parcels)"
    using ok by (simp add: upto_1_5 flip: set_map)
  have h8: "(Some ''a'', 3) \<in> product_key ` set (products five_shirts)"
    using pk by (simp add: upto_1_5 flip: set_map)
  show ?thesis
    using merged_keys_distinct [of five_parcels "[shopA, shopB]" "[''a'', ''b'']" a_ok_b_notes_fail
        five_shirts a_ok_b_fails "(Some ''a'', 3)" "(Some ''a'', 3)"]
      h1 h2 h3 h4 h5 h6 h7 h8
    by simp
qed

lemma allProducts_duplicate_page:
  "map product_key (allProducts [shopA] [''a''] duplicate_page) = [(Some ''a'', 1), (Some ''a'', 1)]"
  by (simp add: allProducts_def productPromise_def duplicate_page_def shopA_def product_key_def shirt_def)

lemma allOrders_duplicate_order_page:
  "map order_key (allOrders [shopA] [''a''] duplicate_order_page) = [(Some ''a'', 1), (Some ''a'', 1)]"
  by (simp add: allOrders_def orderPromise_def duplicate_order_page_def shopA_def order_key_def parcel_def)

text \<open>
  Claim C2 as stated fails: the filter compares the batch with the accumulated list only.
  When a page lists the same entity twice and the accumulated list is empty, both copies
  are appended.
\<close>

theorem duplicate_within_batch_kept:
  "map product_key (products (fetchProducts [shopA] [''a''] duplicate_page no_products))
     = [(Some ''a'', 1), (Some ''a'', 1)] \<and>
   map order_key (orders (fetchOrders [shopA] [''a''] duplicate_order_page no_orders))
     = [(Some ''a'', 1), (Some ''a'', 1)]"
  using allProducts_duplicate_page allOrders_duplicate_order_page
  by (simp add: products_fetchProducts orders_fetchOrders no_products_def no_orders_def)

subsection \<open>Partial failure of an aggregation\<close>

lemma withNotes_None:
  "(withNotes server ordersData = None) = list_ex (\<lambda>item. isl (snd item)) ordersData"
  by (induction server ordersData rule: withNotes.induct) (auto split: option.splits)

lemma withNotes_Some:
  "\<not> list_ex (\<lambda>item. isl (snd item)) ordersData \<Longrightarrow>
     withNotes server ordersData =
       Some (map (\<lambda>item. (fst item)\<lparr>order_notes := projr (snd item),
          order_store := Some \<lparr>store_id = server_id server, store_name = name server\<rparr>\<rparr>) ordersData)"
  by (induction server ordersData rule: withNotes.induct) auto

lemma concat_map_filter_nonempty:
  "(\<And>i. i \<in> set ixs \<Longrightarrow> \<not> P i \<Longrightarrow> f i = []) \<Longrightarrow>
     concat (map f ixs) = concat (map f (filter P ixs))"
  by (induction ixs) auto

lemma failing_orderPromise:
  "orderStoreFails response \<Longrightarrow> orderPromise servers response serverId = []"
proof (cases response)
  case (Inl err)
  then show ?thesis by (simp add: orderPromise_def split: option.splits)
next
  case (Inr ordersData)
  assume "orderStoreFails response"
  with Inr have "withNotes server ordersData = None" for server
    by (simp add: orderStoreFails_def withNotes_None)
  with Inr show ?thesis by (simp add: orderPromise_def split: option.splits)
qed

lemma failing_productPromise:
  "productStoreFails response \<Longrightarrow> productPromise servers response serverId = []"
  by (cases response) (auto simp add: productPromise_def productStoreFails_def split: option.splits)

text \<open>
  Claim C7. A fetch never ends with an error set, whatever the stores answer. A store whose
  request fails (for orders: the list request or any of the notes requests) contributes the
  empty list; a store that succeeds contributes its page, each entity marked with the
  store. The entities of the round are therefore exactly the contributions of the stores
  that succeed, in the order of selection, and when the list shown was empty they are the
  merged result.
\<close>

theorem partial_failure:
  "orders_error (fetchOrders servers selectedServers onet oview) = None \<and>
   products_error (fetchProducts servers selectedServers pnet pview) = None \<and>
   (orderStoreFails oresponse \<longrightarrow> orderPromise servers oresponse serverId = []) \<and>
   (productStoreFails presponse \<longrightarrow> productPromise servers presponse serverId = []) \<and>
   (find (\<lambda>s. server_id s = serverId) servers = Some server \<and> oresponse = Inr ordersData \<and>
    \<not> orderStoreFails oresponse \<longrightarrow>
      orderPromise servers oresponse serverId =
        map (\<lambda>item. (fst item)\<lparr>order_notes := projr (snd item),
          order_store := Some \<lparr>store_id = server_id server, store_name = name server\<rparr>\<rparr>) ordersData) \<and>
   (find (\<lambda>s. server_id s = serverId) servers = Some server \<and> presponse = Inr data \<longrightarrow>
      productPromise servers presponse serverId =
        map (\<lambda>p. p\<lparr>product_store := Some \<lparr>pstore_id = server_id server,
          pstore_name = name server, pstore_url = url server\<rparr>\<rparr>) data) \<and>
   allOrders servers selectedServers onet =
     concat (map (\<lambda>index. orderPromise servers (onet index) (selectedServers ! index))
       (filter (\<lambda>index. \<not> orderStoreFails (onet index)) [0..<length selectedServers])) \<and>
   allProducts servers selectedServers pnet =
     concat (map (\<lambda>index. productPromise servers (pnet index) (selectedServers ! index))
       (filter (\<lambda>index. \<not> productStoreFails (pnet index)) [0..<length selectedServers])) \<and>
   (orders oview = [] \<longrightarrow>
      orders (fetchOrders servers selectedServers onet oview) = allOrders servers selectedServers onet) \<and>
   (products pview = [] \<longrightarrow>
      products (fetchProducts servers selectedServers pnet pview) = allProducts servers selectedServers pnet)"
proof -
  have ok_orders: "orderPromise servers oresponse serverId =
        map (\<lambda>item. (fst item)\<lparr>order_notes := projr (snd item),
          order_store := Some \<lparr>store_id = server_id server, store_name = name server\<rparr>\<rparr>) ordersData"
    if "find (\<lambda>s. server_id s = serverId) servers = Some server" and "oresponse = Inr ordersData"
      and "\<not> orderStoreFails oresponse"
    using that by (simp add: orderPromise_def orderStoreFails_def withNotes_Some)
  have ok_products: "productPromise servers presponse serverId =
        map (\<lambda>p. p\<lparr>product_store := Some \<lparr>pstore_id = server_id server,
          pstore_name = name server, pstore_url = url server\<rparr>\<rparr>) data"
    if "find (\<lambda>s. server_id s = serverId) servers = Some server" and "presponse = Inr data"
    using that by (simp add: productPromise_def)
  have all_orders: "allOrders servers selectedServers onet =
     concat (map (\<lambda>index. orderPromise servers (onet index) (selectedServers ! index))
       (filter (\<lambda>index. \<not> orderStoreFails (onet index)) [0..<length selectedServers]))"
    unfolding allOrders_def
    by (rule concat_map_filter_nonempty) (simp add: failing_orderPromise)
  have all_products: "allProducts servers selectedServers pnet =
     concat (map (\<lambda>index. productPromise servers (pnet index) (selectedServers ! index))
       (filter (\<lambda>index. \<not> productStoreFails (pnet index)) [0..<length selectedServers]))"
    unfolding allProducts_def
    by (rule concat_map_filter_nonempty) (simp add: failing_productPromise)
  have fresh_orders: "orders (fetchOrders servers selectedServers onet oview) = allOrders servers selectedServers onet"
    if "orders oview = []"
    using that by (simp add: fetchOrders_def Let_def)
  have fresh_products: "products (fetchProducts servers selectedServers pnet pview) = allProducts servers selectedServers pnet"
    if "products pview = []"
    using that by (simp add: fetchProducts_def Let_def)
  have errs: "orders_error (fetchOrders servers selectedServers onet oview) = None"
    "products_error (fetchProducts servers selectedServers pnet pview) = None"
    by (simp_all add: fetchOrders_def fetchProducts_def Let_def)
  from errs failing_orderPromise failing_productPromise ok_orders ok_products all_orders all_products
    fresh_orders fresh_products
  show ?thesis by blast
qed


lemma a_fails_not: "\<not> orderStoreFails (a_ok_b_notes_fail 0)"
  by (simp add: orderStoreFails_def a_ok_b_notes_fail_def list_ex_iff)

text \<open>Store A succeeds with five entities and store B fails: A's five are the result.\<close>

theorem partial_failure_witness:
  "productStoreFails (a_ok_b_fails 1) \<and>
   productPromise [shopA, shopB] (a_ok_b_fails 1) ''b'' = [] \<and>
   orderStoreFails (a_ok_b_notes_fail 1) \<and>
   orderPromise [shopA, shopB] (a_ok_b_notes_fail 1) ''b'' = [] \<and>
   \<not> productStoreFails (a_ok_b_fails 0) \<and>
   \<not> orderStoreFails (a_ok_b_notes_fail 0) \<and>
   products no_products = [] \<and>
   orders no_orders = [] \<and>
   products (fetchProducts [shopA, shopB] [''a'', ''b''] a_ok_b_fails no_products) = map shirt_of_a [1..5] \<and>
   length (products (fetchProducts [shopA, shopB] [''a'', ''b''] a_ok_b_fails no_products)) = 5 \<and>
   products_error (fetchProducts [shopA, shopB] [''a'', ''b''] a_ok_b_fails no_products) = None \<and>
   orders (fetchOrders [shopA, shopB] [''a'', ''b''] a_ok_b_notes_fail no_orders) = map parcel_of_a [1..5] \<and>
   length (orders (fetchOrders [shopA, shopB] [''a'', ''b''] a_ok_b_notes_fail no_orders)) = 5 \<and>
   orders_error (fetchOrders [shopA, shopB] [''a'', ''b''] a_ok_b_notes_fail no_orders) = None"
proof -
  have f1: "productStoreFails (a_ok_b_fails 1)"
    by (simp add: productStoreFails_def a_ok_b_fails_def)
  have f2: "orderStoreFails (a_ok_b_notes_fail 1)"
    by (simp add: orderStoreFails_def a_ok_b_notes_fail_def)
  have f3: "\<not> productStoreFails (a_ok_b_fails 0)"
    by (simp add: productStoreFails_def a_ok_b_fails_def)
  have f4: "products no_products = []" "orders no_orders = []"
    by (simp_all add: no_products_def no_orders_def)
  note inst = partial_failure [where servers = "[shopA, shopB]" and selectedServers = "[''a'', ''b'']"
        and onet = a_ok_b_notes_fail and oview = no_orders and pnet = a_ok_b_fails
        and pview = no_products and oresponse = "a_ok_b_notes_fail 1" and serverId = "''b''"
        and presponse = "a_ok_b_fails 1" and server = shopB and data = "[]" and ordersData = "[]"]
  from inst f1 have g1: "productPromise [shopA, shopB] (a_ok_b_fails 1) ''b'' = []"
    by blast
  from inst f2 have g2: "orderPromise [shopA, shopB] (a_ok_b_notes_fail 1) ''b'' = []"
    by blast
  from inst f4 have "products (fetchProducts [shopA, shopB] [''a'', ''b''] a_ok_b_fails no_products)
      = allProducts [shopA, shopB] [''a'', ''b''] a_ok_b_fails"
    by blast
  then have g3: "products (fetchProducts [shopA, shopB] [''a'', ''b''] a_ok_b_fails no_products)
      = map shirt_of_a [1..5]"
    by (simp only: allProducts_a_ok_b_fails)
  from inst f4 have "orders (fetchOrders [shopA, shopB] [''a'', ''b''] a_ok_b_notes_fail no_orders)
      = allOrders [shopA, shopB] [''a'', ''b''] a_ok_b_notes_fail"
    by blast
  then have g4: "orders (fetchOrders [shopA, shopB] [''a'', ''b''] a_ok_b_notes_fail no_orders)
      = map parcel_of_a [1..5]"
    by (simp only: allOrders_a_ok_b_notes_fail)
  from inst have g5: "products_error (fetchProducts [shopA, shopB] [''a'', ''b''] a_ok_b_fails no_products) = None"
    and g6: "orders_error (fetchOrders [shopA, shopB] [''a'', ''b''] a_ok_b_notes_fail no_orders) = None"
    by blast+
  have g7: "length (map shirt_of_a [1..5]) = 5" "length (map parcel_of_a [1..5]) = 5"
    by simp_all
  from f1 f2 f3 f4 a_fails_not g1 g2 g3 g4 g5 g6 g7 show ?thesis
    by (simp only: simp_thms)
qed

end
